theory Spec2Isabelle
  imports Main "HOL-Library.Multiset"
begin

section \<open>The CAS output backend of the Swift frontend\<close>

text \<open>
  A shallow embedding of \<^verbatim>\<open>lib/Frontend/CASOutputBackends.cpp\<close>: the class
  \<^verbatim>\<open>SwiftCASOutputBackend::Implementation\<close> with its route table
  \<^verbatim>\<open>OutputToInputMap\<close>, its per-input pending sets \<^verbatim>\<open>OutputRefs\<close>, and the
  methods \<^verbatim>\<open>initBackend\<close>, \<^verbatim>\<open>createFileImpl\<close>, \<^verbatim>\<open>storeImpl\<close>,
  \<^verbatim>\<open>finalizeCacheKeysFor\<close> and \<^verbatim>\<open>cloneImpl\<close>.

  The object store and the action cache are held by reference in the source; here they are
  passed to every method and returned updated. An \<^verbatim>\<open>unsigned\<close> input index is a
  \<open>nat\<close>: the code only compares it and uses it as an index.
\<close>

subsection \<open>Data\<close>

text \<open>
  \<^verbatim>\<open>file_types::ID\<close> is an enumeration declared outside this file; the code compares its
  values with \<^verbatim>\<open><\<close> and \<^verbatim>\<open>==\<close>, so an ID is its enumerator value.
\<close>

type_synonym ID = nat

datatype ObjectRef = ObjectRef nat

text \<open>An object of the store: the references it holds and its bytes.\<close>

datatype Object = Object (refs: "ObjectRef list") (data: string)

text \<open>
  \<^verbatim>\<open>FrontendOptions::ActionType\<close>: the code only asks whether the action is
  \<^verbatim>\<open>EmitPCM\<close>.
\<close>

datatype ActionType = EmitPCM | OtherAction nat

text \<open>The three \<^verbatim>\<open>clang::cas::CompileJobCacheResult::OutputKind\<close> values the code uses.\<close>

datatype OutputKind = MainOutput | SerializedDiagnostics | Dependencies

text \<open>
  The ways a call can end other than by \<^verbatim>\<open>Error::success()\<close>: an \<^verbatim>\<open>llvm::Error\<close>
  from the object store or from the action cache, a failed \<^verbatim>\<open>assert\<close>, and
  \<^verbatim>\<open>llvm_unreachable\<close>. The last two stop the program in a build with assertions;
  they carry the message of the source.
\<close>

datatype Error =
    StoreError
  | CacheError
  | AssertionFailed string
  | Unreachable string

text \<open>
  An \<^verbatim>\<open>InputFile\<close>: its main output file name (empty when it has none) and the
  supplementary outputs that are set, with their types, in the order
  \<^verbatim>\<open>forEachSetOutputAndType\<close> visits them.
\<close>

record InputFile =
  outputFilename :: string
  SupplementaryOutputs :: "(string \<times> ID) list"

record FrontendInputsAndOutputs =
  getAllInputs :: "InputFile list"
  getPrincipalOutputType :: ID
  getIndexOfFirstOutputProducingInput :: nat

text \<open>
  What this file uses and does not define: three enumerators of \<^verbatim>\<open>file_types::ID\<close>,
  the predicate \<^verbatim>\<open>file_types::isProducedFromDiagnostics\<close>, the reference the object
  store gives to an object (a function of the object: the store is content-addressed), the
  objects the two \<^verbatim>\<open>CompileJobCacheResult::Builder\<close> classes build from the outputs
  added to them, and the object \<^verbatim>\<open>createCompileJobCacheKeyForOutput\<close> stores for a
  base key and an input index. They are parameters of the model.
\<close>

record externals =
  TY_ClangModuleFile :: ID
  TY_CachedDiagnostics :: ID
  TY_Dependencies :: ID
  isProducedFromDiagnostics :: "ID \<Rightarrow> bool"
  refOf :: "Object \<Rightarrow> ObjectRef"
  swiftResult :: "(ID \<times> ObjectRef) list \<Rightarrow> Object"
  clangResult :: "(OutputKind \<times> ObjectRef) list \<Rightarrow> Object"
  cacheKeyObject :: "ObjectRef \<Rightarrow> nat \<Rightarrow> Object"

subsection \<open>The object store and the action cache\<close>

text \<open>
  Modelled from the spec: the content store contract \<^verbatim>\<open>store(bytes) -> ContentRef\<close>,
  which fails with \<^verbatim>\<open>StoreError\<close>, and whose references are content-derived. The
  class \<^verbatim>\<open>llvm::cas::ObjectStore\<close> is not part of this file. The store keeps the
  objects stored so far, in the order of the calls. Whether a call fails is not decided by
  the program: \<open>store_faults\<close> lists the outcome of the calls to come (\<open>True\<close>: the call
  fails), each call takes the head of the list, and a call on the empty list succeeds.
\<close>

record ObjectStore =
  objects :: "Object list"
  store_faults :: "bool list"

definition fails :: "bool list \<Rightarrow> bool" where
  "fails fs = (fs \<noteq> [] \<and> hd fs)"

definition store :: "externals \<Rightarrow> ObjectStore \<Rightarrow> Object \<Rightarrow> (Error + ObjectRef) \<times> ObjectStore" where
  "store ext cas obj =
     (if fails (store_faults cas)
      then (Inl StoreError, cas\<lparr>store_faults := tl (store_faults cas)\<rparr>)
      else (Inr (refOf ext obj),
            cas\<lparr>objects := objects cas @ [obj], store_faults := tl (store_faults cas)\<rparr>))"

definition storeFromString ::
  "externals \<Rightarrow> ObjectStore \<Rightarrow> ObjectRef list \<Rightarrow> string \<Rightarrow> (Error + ObjectRef) \<times> ObjectStore" where
  "storeFromString ext cas rs bytes = store ext cas (Object rs bytes)"

text \<open>
  Modelled from the spec: the action cache contract \<^verbatim>\<open>put(CacheKey, ContentRef)\<close>, which
  fails with \<^verbatim>\<open>CacheWriteError\<close>. The class \<^verbatim>\<open>llvm::cas::ActionCache\<close> is not part
  of this file. The cache keeps the successful puts in the order of the calls;
  \<open>put_faults\<close> is read as \<open>store_faults\<close> is. \<^verbatim>\<open>CAS.getID\<close> is taken as the
  identity: a key and a value of the cache are references.
\<close>

record ActionCache =
  entries :: "(ObjectRef \<times> ObjectRef) list"
  put_faults :: "bool list"

definition put :: "ActionCache \<Rightarrow> ObjectRef \<Rightarrow> ObjectRef \<Rightarrow> (Error + unit) \<times> ActionCache" where
  "put cache k v =
     (if fails (put_faults cache)
      then (Inl CacheError, cache\<lparr>put_faults := tl (put_faults cache)\<rparr>)
      else (Inr (),
            cache\<lparr>entries := entries cache @ [(k, v)], put_faults := tl (put_faults cache)\<rparr>))"

text \<open>
  Modelled from the spec: \<^verbatim>\<open>deriveKey(baseKey, jobIndex)\<close> is a pure function of the base
  key and the job index. \<^verbatim>\<open>createCompileJobCacheKeyForOutput\<close> is declared in
  \<^verbatim>\<open>CompileJobCacheKey.h\<close> and not defined in this file; it takes the store and
  returns an \<^verbatim>\<open>Expected<ObjectRef>\<close>, so it stores the key object and can fail.
\<close>

definition createCompileJobCacheKeyForOutput ::
  "externals \<Rightarrow> ObjectStore \<Rightarrow> ObjectRef \<Rightarrow> nat \<Rightarrow> (Error + ObjectRef) \<times> ObjectStore" where
  "createCompileJobCacheKeyForOutput ext cas baseKey InputIndex =
     store ext cas (cacheKeyObject ext baseKey InputIndex)"

subsection \<open>The maps of LLVM\<close>

text \<open>
  \<^verbatim>\<open>StringMap::insert\<close> and \<^verbatim>\<open>DenseMap::insert\<close> add the pair when the key is not
  in the map and leave the map as it is when the key is there. A map is the list of its
  pairs, keys distinct, a new pair at the end; the order in which LLVM iterates is another
  one, and nothing below depends on it but through \<^verbatim>\<open>llvm::sort\<close>.
\<close>

definition count_key :: "('k \<times> 'v) list \<Rightarrow> 'k \<Rightarrow> bool" where
  "count_key m k = (k \<in> set (map fst m))"

definition insert_pair :: "'k \<Rightarrow> 'v \<Rightarrow> ('k \<times> 'v) list \<Rightarrow> ('k \<times> 'v) list" where
  "insert_pair k v m = (if count_key m k then m else m @ [(k, v)])"

definition find_key :: "('k \<times> 'v) list \<Rightarrow> 'k \<Rightarrow> 'v option" where
  "find_key m k = map_of m k"

subsection \<open>The implementation object\<close>

text \<open>
  The members of \<^verbatim>\<open>SwiftCASOutputBackend::Implementation\<close> but for the two references
  \<^verbatim>\<open>CAS\<close> and \<^verbatim>\<open>Cache\<close>, which every method takes.
\<close>

record Implementation =
  BaseKey :: ObjectRef
  InputsAndOutputs :: FrontendInputsAndOutputs
  Action :: ActionType
  OutputToInputMap :: "(string \<times> (nat \<times> ID)) list"
  OutputRefs :: "(ID \<times> ObjectRef) list list"

text \<open>The lambda \<^verbatim>\<open>addInput\<close> of \<^verbatim>\<open>initBackend\<close>.\<close>

definition addInput ::
  "externals \<Rightarrow> ID \<Rightarrow> (string \<times> (nat \<times> ID)) list \<Rightarrow> InputFile \<Rightarrow> nat \<Rightarrow> (string \<times> (nat \<times> ID)) list" where
  "addInput ext mainOutputType m Input Index =
     fold (\<lambda>(Out, ty) m'.
             if \<not> isProducedFromDiagnostics ext ty then insert_pair Out (Index, ty) m' else m')
          (SupplementaryOutputs Input)
          (if outputFilename Input \<noteq> []
           then insert_pair (outputFilename Input) (Index, mainOutputType) m
           else m)"

text \<open>The loop \<^verbatim>\<open>for (idx = 0; idx < getAllInputs().size(); ++idx)\<close>, from \<open>idx\<close> on.\<close>

fun addInputs ::
  "externals \<Rightarrow> ID \<Rightarrow> (string \<times> (nat \<times> ID)) list \<Rightarrow> nat \<Rightarrow> InputFile list \<Rightarrow> (string \<times> (nat \<times> ID)) list" where
  "addInputs ext mainOutputType m idx [] = m"
| "addInputs ext mainOutputType m idx (Input # rest) =
     addInputs ext mainOutputType (addInput ext mainOutputType m Input idx) (Suc idx) rest"

definition initBackend ::
  "externals \<Rightarrow> FrontendInputsAndOutputs \<Rightarrow> (string \<times> (nat \<times> ID)) list \<times> (ID \<times> ObjectRef) list list" where
  "initBackend ext io =
     (insert_pair ''<cached-diagnostics>''
        (getIndexOfFirstOutputProducingInput io, TY_CachedDiagnostics ext)
        (addInputs ext (getPrincipalOutputType io) [] 0 (getAllInputs io)),
      replicate (length (getAllInputs io)) [])"

text \<open>The constructor: the members are set, then \<^verbatim>\<open>initBackend\<close> runs.\<close>

definition new_Implementation ::
  "externals \<Rightarrow> ObjectRef \<Rightarrow> FrontendInputsAndOutputs \<Rightarrow> ActionType \<Rightarrow> Implementation" where
  "new_Implementation ext base io act =
     \<lparr>BaseKey = base, InputsAndOutputs = io, Action = act,
      OutputToInputMap = fst (initBackend ext io),
      OutputRefs = snd (initBackend ext io)\<rparr>"

subsection \<open>Output files\<close>

text \<open>
  What \<^verbatim>\<open>createFileImpl\<close> returns: LLVM's \<^verbatim>\<open>NullOutputFileImpl\<close>, whose
  \<^verbatim>\<open>keep\<close> does nothing, or a \<^verbatim>\<open>SwiftCASOutputFile\<close> with its \<^verbatim>\<open>Path\<close>, the
  \<^verbatim>\<open>Bytes\<close> written to it, and the \<^verbatim>\<open>InputIndex\<close> and \<^verbatim>\<open>OutputType\<close> its
  \<^verbatim>\<open>OnKeep\<close> closure holds.
\<close>

datatype OutputFileImpl =
    NullOutputFileImpl
  | SwiftCASOutputFile string string nat ID

definition createFileImpl :: "externals \<Rightarrow> Implementation \<Rightarrow> string \<Rightarrow> Error + OutputFileImpl" where
  "createFileImpl ext impl ResolvedPath =
     (case find_key (OutputToInputMap impl) ResolvedPath of
        None \<Rightarrow> Inl (AssertionFailed ''Unknown output file'')
      | Some (InputIndex, OutputType) \<Rightarrow>
          if isProducedFromDiagnostics ext OutputType then Inr NullOutputFileImpl
          else Inr (SwiftCASOutputFile ResolvedPath [] InputIndex OutputType))"

text \<open>Writing to the stream \<^verbatim>\<open>getOS()\<close> of a file appends to its buffer.\<close>

fun write_bytes :: "OutputFileImpl \<Rightarrow> string \<Rightarrow> OutputFileImpl" where
  "write_bytes NullOutputFileImpl bs = NullOutputFileImpl"
| "write_bytes (SwiftCASOutputFile p b i ty) bs = SwiftCASOutputFile p (b @ bs) i ty"

subsection \<open>Storing an output and writing the cache entry\<close>

text \<open>
  The loop over \<^verbatim>\<open>OutputsForInput\<close> when the action is \<^verbatim>\<open>EmitPCM\<close>; \<open>Builder\<close> is
  the list of the outputs added so far.
\<close>

fun addClangOutputs ::
  "externals \<Rightarrow> (OutputKind \<times> ObjectRef) list \<Rightarrow> (ID \<times> ObjectRef) list
     \<Rightarrow> Error + (OutputKind \<times> ObjectRef) list" where
  "addClangOutputs ext Builder [] = Inr Builder"
| "addClangOutputs ext Builder (Outs # rest) =
     (if fst Outs = TY_ClangModuleFile ext
        then addClangOutputs ext (Builder @ [(MainOutput, snd Outs)]) rest
      else if fst Outs = TY_CachedDiagnostics ext
        then addClangOutputs ext (Builder @ [(SerializedDiagnostics, snd Outs)]) rest
      else if fst Outs = TY_Dependencies ext
        then addClangOutputs ext (Builder @ [(Dependencies, snd Outs)]) rest
      else Inl (Unreachable ''Unexpected output when compiling clang module''))"

text \<open>
  The object of the result: \<^verbatim>\<open>Builder.build(CAS)\<close> stores it. \<^verbatim>\<open>llvm::sort\<close> is
  not stable; the keys of a map are distinct, so every sort gives the list below.
\<close>

definition resultObject :: "externals \<Rightarrow> ActionType \<Rightarrow> (ID \<times> ObjectRef) list \<Rightarrow> Error + Object" where
  "resultObject ext act ProducedOutputs =
     (let OutputsForInput = sort_key fst ProducedOutputs in
      if act = EmitPCM then
        (case addClangOutputs ext [] OutputsForInput of
           Inl e \<Rightarrow> Inl e
         | Inr Builder \<Rightarrow> Inr (clangResult ext Builder))
      else Inr (swiftResult ext OutputsForInput))"

text \<open>The test \<^verbatim>\<open>llvm::all_of(OutputToInputMap, ...)\<close> of \<^verbatim>\<open>finalizeCacheKeysFor\<close>.\<close>

definition allOutputsEmitted :: "Implementation \<Rightarrow> nat \<Rightarrow> (ID \<times> ObjectRef) list \<Rightarrow> bool" where
  "allOutputsEmitted impl idx ProducedOutputs =
     list_all (\<lambda>E. fst (snd E) \<noteq> idx \<or> count_key ProducedOutputs (snd (snd E)))
       (OutputToInputMap impl)"

definition finalizeCacheKeysFor ::
  "externals \<Rightarrow> Implementation \<Rightarrow> ObjectStore \<Rightarrow> ActionCache \<Rightarrow> nat
     \<Rightarrow> (Error + unit) \<times> ObjectStore \<times> ActionCache" where
  "finalizeCacheKeysFor ext impl cas cache idx =
     (if \<not> idx < length (OutputRefs impl) then (Inl (AssertionFailed ''idx < size()''), cas, cache)
      else
        let ProducedOutputs = OutputRefs impl ! idx in
        if ProducedOutputs = [] then (Inl (AssertionFailed ''Expect outputs for this input''), cas, cache)
        else if \<not> allOutputsEmitted impl idx ProducedOutputs then (Inr (), cas, cache)
        else
          (case resultObject ext (Action impl) ProducedOutputs of
             Inl e \<Rightarrow> (Inl e, cas, cache)
           | Inr obj \<Rightarrow>
               (case store ext cas obj of
                  (Inl e, cas1) \<Rightarrow> (Inl e, cas1, cache)
                | (Inr Result, cas1) \<Rightarrow>
                    (case createCompileJobCacheKeyForOutput ext cas1 (BaseKey impl) idx of
                       (Inl e, cas2) \<Rightarrow> (Inl e, cas2, cache)
                     | (Inr CacheKey, cas2) \<Rightarrow>
                         (case put cache CacheKey Result of
                            (Inl e, cache1) \<Rightarrow> (Inl e, cas2, cache1)
                          | (Inr u, cache1) \<Rightarrow> (Inr (), cas2, cache1))))))"

definition storeImpl ::
  "externals \<Rightarrow> Implementation \<Rightarrow> ObjectStore \<Rightarrow> ActionCache \<Rightarrow> string \<Rightarrow> string \<Rightarrow> nat \<Rightarrow> ID
     \<Rightarrow> (Error + unit) \<times> Implementation \<times> ObjectStore \<times> ActionCache" where
  "storeImpl ext impl cas cache path bytes idx OutputKind =
     (case storeFromString ext cas [] bytes of
        (Inl e, cas1) \<Rightarrow> (Inl e, impl, cas1, cache)
      | (Inr BytesRef, cas1) \<Rightarrow>
          if \<not> idx < length (OutputRefs impl)
          then (Inl (AssertionFailed ''idx < size()''), impl, cas1, cache)
          else
            let impl1 = impl\<lparr>OutputRefs :=
                          (OutputRefs impl)[idx := insert_pair OutputKind BytesRef (OutputRefs impl ! idx)]\<rparr>;
                (r, cas2, cache2) = finalizeCacheKeysFor ext impl1 cas1 cache idx
            in (r, impl1, cas2, cache2))"

definition storeCachedDiagnostics ::
  "externals \<Rightarrow> Implementation \<Rightarrow> ObjectStore \<Rightarrow> ActionCache \<Rightarrow> nat \<Rightarrow> string
     \<Rightarrow> (Error + unit) \<times> Implementation \<times> ObjectStore \<times> ActionCache" where
  "storeCachedDiagnostics ext impl cas cache idx bytes =
     storeImpl ext impl cas cache ''<cached-diagnostics>'' bytes idx (TY_CachedDiagnostics ext)"

text \<open>\<^verbatim>\<open>keep\<close> and \<^verbatim>\<open>discard\<close> of an output file.\<close>

definition keep ::
  "externals \<Rightarrow> Implementation \<Rightarrow> ObjectStore \<Rightarrow> ActionCache \<Rightarrow> OutputFileImpl
     \<Rightarrow> (Error + unit) \<times> Implementation \<times> ObjectStore \<times> ActionCache" where
  "keep ext impl cas cache file =
     (case file of
        NullOutputFileImpl \<Rightarrow> (Inr (), impl, cas, cache)
      | SwiftCASOutputFile p b i ty \<Rightarrow> storeImpl ext impl cas cache p b i ty)"

definition discard ::
  "externals \<Rightarrow> Implementation \<Rightarrow> ObjectStore \<Rightarrow> ActionCache \<Rightarrow> OutputFileImpl
     \<Rightarrow> (Error + unit) \<times> Implementation \<times> ObjectStore \<times> ActionCache" where
  "discard ext impl cas cache file = (Inr (), impl, cas, cache)"

text \<open>The kinds the route table declares for an input.\<close>

definition declaredKinds :: "Implementation \<Rightarrow> nat \<Rightarrow> ID set" where
  "declaredKinds impl idx =
     set (map (\<lambda>E. snd (snd E)) (filter (\<lambda>E. fst (snd E) = idx) (OutputToInputMap impl)))"

text \<open>The kinds present in the pending set of an input.\<close>

definition presentKinds :: "Implementation \<Rightarrow> nat \<Rightarrow> ID set" where
  "presentKinds impl idx = fst ` set (OutputRefs impl ! idx)"

text \<open>The key under which the entry of an input is put: the reference of its key object.\<close>

definition cacheKeyOf :: "externals \<Rightarrow> Implementation \<Rightarrow> nat \<Rightarrow> ObjectRef" where
  "cacheKeyOf ext impl idx = refOf ext (cacheKeyObject ext (BaseKey impl) idx)"

text \<open>
  An input is complete when \<^verbatim>\<open>finalizeCacheKeysFor\<close> would go on to write its entry:
  its pending set is not empty and holds every kind the route table declares for it.
\<close>

definition jobComplete :: "Implementation \<Rightarrow> nat \<Rightarrow> bool" where
  "jobComplete impl idx =
     (OutputRefs impl ! idx \<noteq> [] \<and> allOutputsEmitted impl idx (OutputRefs impl ! idx))"

subsection \<open>Sequences of calls\<close>

text \<open>
  The protocol of the caller for one output: create the file at the path, write the bytes,
  keep the file.
\<close>

definition emitOutput ::
  "externals \<Rightarrow> Implementation \<Rightarrow> ObjectStore \<Rightarrow> ActionCache \<Rightarrow> string \<Rightarrow> string
     \<Rightarrow> (Error + unit) \<times> Implementation \<times> ObjectStore \<times> ActionCache" where
  "emitOutput ext impl cas cache path bytes =
     (case createFileImpl ext impl path of
        Inl e \<Rightarrow> (Inl e, impl, cas, cache)
      | Inr file \<Rightarrow> keep ext impl cas cache (write_bytes file bytes))"

text \<open>
  A sequence of calls of \<^verbatim>\<open>storeImpl\<close>, each given by its input index, its kind and
  its bytes; the sequence stops at the first call that does not succeed.
\<close>

fun storeSequence ::
  "externals \<Rightarrow> Implementation \<Rightarrow> ObjectStore \<Rightarrow> ActionCache \<Rightarrow> (nat \<times> ID \<times> string) list
     \<Rightarrow> (Error + unit) \<times> Implementation \<times> ObjectStore \<times> ActionCache" where
  "storeSequence ext impl cas cache [] = (Inr (), impl, cas, cache)"
| "storeSequence ext impl cas cache (req # rest) =
     (case storeImpl ext impl cas cache [] (snd (snd req)) (fst req) (fst (snd req)) of
        (Inl e, st) \<Rightarrow> (Inl e, st)
      | (Inr u, impl1, cas1, cache1) \<Rightarrow> storeSequence ext impl1 cas1 cache1 rest)"

text \<open>No call of the sequence is for an input that is complete when the call is made.\<close>

fun noStoreOnComplete ::
  "externals \<Rightarrow> Implementation \<Rightarrow> ObjectStore \<Rightarrow> ActionCache \<Rightarrow> (nat \<times> ID \<times> string) list \<Rightarrow> bool" where
  "noStoreOnComplete ext impl cas cache [] = True"
| "noStoreOnComplete ext impl cas cache (req # rest) =
     (\<not> jobComplete impl (fst req) \<and>
      (case storeImpl ext impl cas cache [] (snd (snd req)) (fst req) (fst (snd req)) of
         (Inl e, st) \<Rightarrow> True
       | (Inr u, impl1, cas1, cache1) \<Rightarrow> noStoreOnComplete ext impl1 cas1 cache1 rest))"

subsection \<open>Backends and their implementation objects\<close>

text \<open>
  A \<^verbatim>\<open>SwiftCASOutputBackend\<close> holds a reference \<^verbatim>\<open>Impl\<close> to an implementation
  object that its constructor allocates, and every implementation object holds references
  to the object store and the action cache. The memory is the store, the cache and the
  implementation objects allocated so far; a backend is the address of its implementation
  object.
\<close>

record Memory =
  CAS :: ObjectStore
  Cache :: ActionCache
  Impls :: "Implementation list"

definition new_SwiftCASOutputBackend ::
  "externals \<Rightarrow> Memory \<Rightarrow> ObjectRef \<Rightarrow> FrontendInputsAndOutputs \<Rightarrow> ActionType \<Rightarrow> nat \<times> Memory" where
  "new_SwiftCASOutputBackend ext mem base io act =
     (length (Impls mem), mem\<lparr>Impls := Impls mem @ [new_Implementation ext base io act]\<rparr>)"

definition cloneImpl :: "externals \<Rightarrow> Memory \<Rightarrow> nat \<Rightarrow> nat \<times> Memory" where
  "cloneImpl ext mem this =
     new_SwiftCASOutputBackend ext mem
       (BaseKey (Impls mem ! this)) (InputsAndOutputs (Impls mem ! this)) (Action (Impls mem ! this))"

text \<open>\<^verbatim>\<open>SwiftCASOutputBackend::storeImpl\<close> calls \<^verbatim>\<open>Impl.storeImpl\<close>.\<close>

definition backend_storeImpl ::
  "externals \<Rightarrow> Memory \<Rightarrow> nat \<Rightarrow> string \<Rightarrow> string \<Rightarrow> nat \<Rightarrow> ID \<Rightarrow> (Error + unit) \<times> Memory" where
  "backend_storeImpl ext mem this path bytes idx OutputKind =
     (case storeImpl ext (Impls mem ! this) (CAS mem) (Cache mem) path bytes idx OutputKind of
        (r, impl1, cas1, cache1) \<Rightarrow>
          (r, \<lparr>CAS = cas1, Cache = cache1, Impls = (Impls mem)[this := impl1]\<rparr>))"

subsection \<open>The plan, the entries of an input, the stores of an input\<close>

text \<open>
  The routes \<^verbatim>\<open>initBackend\<close> tries to insert, in the order of its insertions: for each
  input its main output when it has one, then its supplementary outputs that are not
  produced from diagnostics, and last the path of the cached diagnostics.
\<close>

definition inputRoutes :: "externals \<Rightarrow> ID \<Rightarrow> InputFile \<Rightarrow> nat \<Rightarrow> (string \<times> (nat \<times> ID)) list" where
  "inputRoutes ext mainOutputType Input Index =
     (if outputFilename Input \<noteq> [] then [(outputFilename Input, (Index, mainOutputType))] else [])
     @ map (\<lambda>(Out, ty). (Out, (Index, ty)))
         (filter (\<lambda>(Out, ty). \<not> isProducedFromDiagnostics ext ty) (SupplementaryOutputs Input))"

fun routesFrom :: "externals \<Rightarrow> ID \<Rightarrow> nat \<Rightarrow> InputFile list \<Rightarrow> (string \<times> (nat \<times> ID)) list" where
  "routesFrom ext mainOutputType idx [] = []"
| "routesFrom ext mainOutputType idx (Input # rest) =
     inputRoutes ext mainOutputType Input idx @ routesFrom ext mainOutputType (Suc idx) rest"

definition plannedRoutes :: "externals \<Rightarrow> FrontendInputsAndOutputs \<Rightarrow> (string \<times> (nat \<times> ID)) list" where
  "plannedRoutes ext io =
     routesFrom ext (getPrincipalOutputType io) 0 (getAllInputs io)
     @ [(''<cached-diagnostics>'', (getIndexOfFirstOutputProducingInput io, TY_CachedDiagnostics ext))]"

text \<open>The number of entries of the cache under a key.\<close>

definition putsFor :: "ObjectRef \<Rightarrow> ActionCache \<Rightarrow> nat" where
  "putsFor key cache = length (filter (\<lambda>e. fst e = key) (entries cache))"

text \<open>
  The stores of the artifacts of one input, each artifact given by its kind and its bytes,
  and the pairs of kind and reference they insert.
\<close>

definition storesFor :: "nat \<Rightarrow> (ID \<times> string) list \<Rightarrow> (nat \<times> ID \<times> string) list" where
  "storesFor idx arts = map (\<lambda>a. (idx, fst a, snd a)) arts"

definition refsOf :: "externals \<Rightarrow> (ID \<times> string) list \<Rightarrow> (ID \<times> ObjectRef) list" where
  "refsOf ext arts = map (\<lambda>a. (fst a, refOf ext (Object [] (snd a)))) arts"

subsection \<open>A small instance\<close>

text \<open>
  Values for the parameters, to run the model on: a reference is the number of bytes of
  the object plus sixteen times the sum of the references it holds.
\<close>

fun refNumber :: "ObjectRef \<Rightarrow> nat" where
  "refNumber (ObjectRef n) = n"

definition demoExt :: externals where
  "demoExt =
     \<lparr>TY_ClangModuleFile = 1, TY_CachedDiagnostics = 2, TY_Dependencies = 3,
      isProducedFromDiagnostics = (\<lambda>k. k = 4),
      refOf = (\<lambda>obj. ObjectRef (length (data obj) + 16 * sum_list (map refNumber (refs obj)))),
      swiftResult = (\<lambda>outs. Object (map snd outs) (map (\<lambda>p. char_of (fst p)) outs)),
      clangResult = (\<lambda>outs. Object (map snd outs)
                        (map (\<lambda>p. case fst p of MainOutput \<Rightarrow> CHR ''M''
                                   | SerializedDiagnostics \<Rightarrow> CHR ''S''
                                   | Dependencies \<Rightarrow> CHR ''D'') outs)),
      cacheKeyObject = (\<lambda>base idx. Object [base] (replicate (Suc idx) CHR ''k''))\<rparr>"

text \<open>
  A plan of two inputs with the object files \<^verbatim>\<open>a.o\<close> and \<^verbatim>\<open>b.o\<close> (kind 5); the
  first has a dependency file too.
\<close>

definition demoPlan :: FrontendInputsAndOutputs where
  "demoPlan =
     \<lparr>getAllInputs =
        [\<lparr>outputFilename = ''a.o'', SupplementaryOutputs = [(''a.d'', 3)]\<rparr>,
         \<lparr>outputFilename = ''b.o'', SupplementaryOutputs = []\<rparr>],
      getPrincipalOutputType = 5,
      getIndexOfFirstOutputProducingInput = 0\<rparr>"

definition emptyStore :: ObjectStore where
  "emptyStore = \<lparr>objects = [], store_faults = []\<rparr>"

definition emptyCache :: ActionCache where
  "emptyCache = \<lparr>entries = [], put_faults = []\<rparr>"

text \<open>A backend for the plan, with the general schema, and one with the clang schema.\<close>

definition demoImpl :: Implementation where
  "demoImpl = new_Implementation demoExt (ObjectRef 7) demoPlan (OtherAction 0)"

definition demoPCM :: Implementation where
  "demoPCM = new_Implementation demoExt (ObjectRef 7) demoPlan EmitPCM"

text \<open>A store whose next call fails.\<close>

definition faultyStore :: ObjectStore where
  "faultyStore = \<lparr>objects = [], store_faults = [True]\<rparr>"

text \<open>The backend after the object file of the first input was stored with the bytes \<^verbatim>\<open>xy\<close>.\<close>

definition demoImplA :: Implementation where
  "demoImplA = demoImpl\<lparr>OutputRefs := [[(5, ObjectRef 2)], []]\<rparr>"

definition demoStoreA :: ObjectStore where
  "demoStoreA = \<lparr>objects = [Object [] ''xy''], store_faults = []\<rparr>"

text \<open>A plan of two inputs that both write to \<^verbatim>\<open>-\<close>.\<close>

definition dupPlan :: FrontendInputsAndOutputs where
  "dupPlan =
     \<lparr>getAllInputs =
        [\<lparr>outputFilename = ''-'', SupplementaryOutputs = []\<rparr>,
         \<lparr>outputFilename = ''-'', SupplementaryOutputs = []\<rparr>],
      getPrincipalOutputType = 5,
      getIndexOfFirstOutputProducingInput = 0\<rparr>"

text \<open>
  A plan whose principal output type is produced from diagnostics (kind 4), and a plan with
  a supplementary output of that kind.
\<close>

definition diaMainPlan :: FrontendInputsAndOutputs where
  "diaMainPlan =
     \<lparr>getAllInputs = [\<lparr>outputFilename = ''a.dia'', SupplementaryOutputs = []\<rparr>],
      getPrincipalOutputType = 4,
      getIndexOfFirstOutputProducingInput = 0\<rparr>"

definition diaSuppPlan :: FrontendInputsAndOutputs where
  "diaSuppPlan =
     \<lparr>getAllInputs = [\<lparr>outputFilename = ''a.o'', SupplementaryOutputs = [(''a.dia'', 4)]\<rparr>],
      getPrincipalOutputType = 5,
      getIndexOfFirstOutputProducingInput = 0\<rparr>"

text \<open>The backend after the two outputs of the first input were stored.\<close>

definition demoImplAD :: Implementation where
  "demoImplAD = demoImpl\<lparr>OutputRefs := [[(5, ObjectRef 2), (3, ObjectRef 3)], []]\<rparr>"

definition demoStoreAD :: ObjectStore where
  "demoStoreAD = \<lparr>objects = [Object [] ''xy'', Object [] ''xyz''], store_faults = []\<rparr>"

text \<open>
  A memory with one backend, the one that has stored the object file of its first input.
\<close>

definition demoMemory :: Memory where
  "demoMemory = \<lparr>CAS = demoStoreA, Cache = emptyCache, Impls = [demoImplA]\<rparr>"

section \<open>Properties\<close>

subsection \<open>Basic facts\<close>

lemma allOutputsEmitted_iff:
  "allOutputsEmitted impl idx outs \<longleftrightarrow> declaredKinds impl idx \<subseteq> fst ` set outs"
  unfolding allOutputsEmitted_def declaredKinds_def count_key_def list_all_iff
  by auto

lemma finalize_incomplete:
  "idx < length (OutputRefs impl) \<Longrightarrow> OutputRefs impl ! idx \<noteq> [] \<Longrightarrow>
   \<not> allOutputsEmitted impl idx (OutputRefs impl ! idx) \<Longrightarrow>
   finalizeCacheKeysFor ext impl cas cache idx = (Inr (), cas, cache)"
  by (simp add: finalizeCacheKeysFor_def)

lemma finalize_cache_changed:
  assumes "finalizeCacheKeysFor ext impl cas cache idx = (r, cas', cache')" and "cache' \<noteq> cache"
  shows "idx < length (OutputRefs impl) \<and> allOutputsEmitted impl idx (OutputRefs impl ! idx)"
proof (rule ccontr)
  assume "\<not> ?thesis"
  then have "finalizeCacheKeysFor ext impl cas cache idx = (Inl (AssertionFailed ''idx < size()''), cas, cache)
    \<or> finalizeCacheKeysFor ext impl cas cache idx = (Inl (AssertionFailed ''Expect outputs for this input''), cas, cache)
    \<or> finalizeCacheKeysFor ext impl cas cache idx = (Inr (), cas, cache)"
    unfolding finalizeCacheKeysFor_def Let_def by presburger
  with assms show False by auto
qed


lemma insert_pair_not_Nil: "insert_pair k v m \<noteq> []"
  by (auto simp: insert_pair_def count_key_def)

lemma storeImpl_fails:
  "fails (store_faults cas) \<Longrightarrow>
   storeImpl ext impl cas cache path bytes idx kind =
     (Inl StoreError, impl, cas\<lparr>store_faults := tl (store_faults cas)\<rparr>, cache)"
  by (simp add: storeImpl_def storeFromString_def store_def)

lemma storeImpl_range:
  "\<not> fails (store_faults cas) \<Longrightarrow> \<not> idx < length (OutputRefs impl) \<Longrightarrow>
   storeImpl ext impl cas cache path bytes idx kind =
     (Inl (AssertionFailed ''idx < size()''), impl,
      cas\<lparr>objects := objects cas @ [Object [] bytes], store_faults := tl (store_faults cas)\<rparr>, cache)"
  by (simp add: storeImpl_def storeFromString_def store_def)

lemma storeImpl_ok:
  "\<not> fails (store_faults cas) \<Longrightarrow> idx < length (OutputRefs impl) \<Longrightarrow>
   storeImpl ext impl cas cache path bytes idx kind =
     (fst (finalizeCacheKeysFor ext
             (impl\<lparr>OutputRefs := (OutputRefs impl)
                [idx := insert_pair kind (refOf ext (Object [] bytes)) (OutputRefs impl ! idx)]\<rparr>)
             (cas\<lparr>objects := objects cas @ [Object [] bytes], store_faults := tl (store_faults cas)\<rparr>)
             cache idx),
      impl\<lparr>OutputRefs := (OutputRefs impl)
                [idx := insert_pair kind (refOf ext (Object [] bytes)) (OutputRefs impl ! idx)]\<rparr>,
      snd (finalizeCacheKeysFor ext
             (impl\<lparr>OutputRefs := (OutputRefs impl)
                [idx := insert_pair kind (refOf ext (Object [] bytes)) (OutputRefs impl ! idx)]\<rparr>)
             (cas\<lparr>objects := objects cas @ [Object [] bytes], store_faults := tl (store_faults cas)\<rparr>)
             cache idx))"
  by (simp add: storeImpl_def storeFromString_def store_def Let_def split_beta)


subsection \<open>An entry is written only for a complete input\<close>

text \<open>
  C1. A call of \<^verbatim>\<open>storeImpl\<close> changes the action cache only when, after the insertion,
  the pending set of the input holds every kind the route table declares for the input.
  When the object store takes the bytes and a declared kind is still missing, the call
  returns success, the action cache is as it was, and the only object stored is the one
  of the bytes: no result was encoded.
\<close>

theorem storeImpl_writes_only_when_complete:
  assumes "storeImpl ext impl cas cache path bytes idx kind = (r, impl', cas', cache')"
  shows "(cache' \<noteq> cache \<longrightarrow>
            idx < length (OutputRefs impl') \<and> declaredKinds impl' idx \<subseteq> presentKinds impl' idx)
       \<and> (\<not> fails (store_faults cas) \<and> idx < length (OutputRefs impl)
            \<and> \<not> declaredKinds impl' idx \<subseteq> presentKinds impl' idx \<longrightarrow>
            r = Inr () \<and> cache' = cache \<and> objects cas' = objects cas @ [Object [] bytes])"
proof (cases "fails (store_faults cas)")
  case True
  from assms True show ?thesis
    unfolding storeImpl_fails [OF True] by auto
next
  case ok: False
  show ?thesis
  proof (cases "idx < length (OutputRefs impl)")
    case False
    from assms False show ?thesis
      unfolding storeImpl_range [OF ok False] by auto
  next
    case True
    define cas1 where "cas1 = cas\<lparr>objects := objects cas @ [Object [] bytes], store_faults := tl (store_faults cas)\<rparr>"
    define impl1 where "impl1 = impl\<lparr>OutputRefs :=
        (OutputRefs impl)[idx := insert_pair kind (refOf ext (Object [] bytes)) (OutputRefs impl ! idx)]\<rparr>"
    from assms have fin: "finalizeCacheKeysFor ext impl1 cas1 cache idx = (r, cas', cache')"
      and impl': "impl' = impl1"
      unfolding storeImpl_ok [OF ok True] cas1_def impl1_def by (auto simp: prod_eq_iff)
    have len: "idx < length (OutputRefs impl1)" and ne: "OutputRefs impl1 ! idx \<noteq> []"
      using True by (simp_all add: impl1_def insert_pair_not_Nil)
    have a: "cache' \<noteq> cache \<longrightarrow> declaredKinds impl1 idx \<subseteq> presentKinds impl1 idx"
      using finalize_cache_changed [OF fin]
      by (simp add: allOutputsEmitted_iff presentKinds_def)
    have b: "\<not> declaredKinds impl1 idx \<subseteq> presentKinds impl1 idx \<longrightarrow>
               r = Inr () \<and> cache' = cache \<and> cas' = cas1"
      using finalize_incomplete [OF len ne, of ext cas1 cache] fin
      by (simp add: allOutputsEmitted_iff presentKinds_def)
    have c: "objects cas1 = objects cas @ [Object [] bytes]"
      by (simp add: cas1_def)
    from a b c len show ?thesis
      unfolding impl' by blast
  qed
qed

lemma demo_store_b:
  "storeImpl demoExt demoImpl emptyStore emptyCache ''b.o'' ''xy'' 1 5 =
     (Inr (), demoImpl\<lparr>OutputRefs := [[], [(5, ObjectRef 2)]]\<rparr>,
      \<lparr>objects = [Object [] ''xy'', Object [ObjectRef 2] [char_of (5::nat)], Object [ObjectRef 7] ''kk''],
       store_faults = []\<rparr>,
      \<lparr>entries = [(ObjectRef 114, ObjectRef 33)], put_faults = []\<rparr>)"
  by code_simp

lemma demo_store_a:
  "storeImpl demoExt demoImpl emptyStore emptyCache ''a.o'' ''xy'' 0 5 =
     (Inr (), demoImpl\<lparr>OutputRefs := [[(5, ObjectRef 2)], []]\<rparr>,
      \<lparr>objects = [Object [] ''xy''], store_faults = []\<rparr>, emptyCache)"
  by code_simp

theorem storeImpl_writes_only_when_complete_witness:
  "(\<exists>r impl' cas' cache'.
      storeImpl demoExt demoImpl emptyStore emptyCache ''b.o'' ''xy'' 1 5 = (r, impl', cas', cache')
      \<and> cache' \<noteq> emptyCache \<and> declaredKinds impl' 1 \<subseteq> presentKinds impl' 1)
   \<and> (\<exists>r impl' cas' cache'.
      storeImpl demoExt demoImpl emptyStore emptyCache ''a.o'' ''xy'' 0 5 = (r, impl', cas', cache')
      \<and> \<not> fails (store_faults emptyStore) \<and> 0 < length (OutputRefs demoImpl)
      \<and> \<not> declaredKinds impl' 0 \<subseteq> presentKinds impl' 0
      \<and> r = Inr () \<and> cache' = emptyCache \<and> objects cas' = objects emptyStore @ [Object [] ''xy''])"
proof -
  have ne: "\<lparr>entries = [(ObjectRef 114, ObjectRef 33)], put_faults = []\<rparr> \<noteq> emptyCache"
    by code_simp
  have inc: "\<not> declaredKinds (demoImpl\<lparr>OutputRefs := [[(5, ObjectRef 2)], []]\<rparr>) 0
               \<subseteq> presentKinds (demoImpl\<lparr>OutputRefs := [[(5, ObjectRef 2)], []]\<rparr>) 0"
    by code_simp
  have ok: "\<not> fails (store_faults emptyStore)" "0 < length (OutputRefs demoImpl)"
    by code_simp+
  from storeImpl_writes_only_when_complete [OF demo_store_b] ne
       storeImpl_writes_only_when_complete [OF demo_store_a] inc ok
       demo_store_a demo_store_b
  show ?thesis
    by blast
qed

subsection \<open>What a call of \<^verbatim>\<open>finalizeCacheKeysFor\<close> does for a complete input\<close>

lemma store_ok:
  "\<not> fails (store_faults cas) \<Longrightarrow>
   store ext cas obj =
     (Inr (refOf ext obj), cas\<lparr>objects := objects cas @ [obj], store_faults := tl (store_faults cas)\<rparr>)"
  by (simp add: store_def)

lemma put_ok:
  "\<not> fails (put_faults cache) \<Longrightarrow>
   put cache k v =
     (Inr (), cache\<lparr>entries := entries cache @ [(k, v)], put_faults := tl (put_faults cache)\<rparr>)"
  by (simp add: put_def)

lemma finalize_complete:
  assumes "idx < length (OutputRefs impl)" "OutputRefs impl ! idx \<noteq> []"
    and "allOutputsEmitted impl idx (OutputRefs impl ! idx)"
    and "resultObject ext (Action impl) (OutputRefs impl ! idx) = Inr obj"
    and "\<not> fails (store_faults cas)" "\<not> fails (tl (store_faults cas))" "\<not> fails (put_faults cache)"
  shows "finalizeCacheKeysFor ext impl cas cache idx =
           (Inr (),
            cas\<lparr>objects := objects cas @ [obj, cacheKeyObject ext (BaseKey impl) idx],
                 store_faults := tl (tl (store_faults cas))\<rparr>,
            cache\<lparr>entries := entries cache @ [(cacheKeyOf ext impl idx, refOf ext obj)],
                   put_faults := tl (put_faults cache)\<rparr>)"
proof -
  define cas1 where "cas1 = cas\<lparr>objects := objects cas @ [obj], store_faults := tl (store_faults cas)\<rparr>"
  have s1: "store ext cas obj = (Inr (refOf ext obj), cas1)"
    using assms(5) by (simp add: store_ok cas1_def)
  have "\<not> fails (store_faults cas1)"
    using assms(6) by (simp add: cas1_def)
  then have s2: "createCompileJobCacheKeyForOutput ext cas1 (BaseKey impl) idx =
      (Inr (cacheKeyOf ext impl idx),
       cas\<lparr>objects := objects cas @ [obj, cacheKeyObject ext (BaseKey impl) idx],
                 store_faults := tl (tl (store_faults cas))\<rparr>)"
    by (simp add: createCompileJobCacheKeyForOutput_def store_ok cacheKeyOf_def cas1_def)
  show ?thesis
    unfolding finalizeCacheKeysFor_def Let_def
    using assms(1-4) by (simp add: s1 s2 put_ok [OF assms(7)])
qed

lemma finalize_encode_error:
  assumes "idx < length (OutputRefs impl)" "OutputRefs impl ! idx \<noteq> []"
    and "allOutputsEmitted impl idx (OutputRefs impl ! idx)"
    and "resultObject ext (Action impl) (OutputRefs impl ! idx) = Inl e"
  shows "finalizeCacheKeysFor ext impl cas cache idx = (Inl e, cas, cache)"
  using assms by (simp add: finalizeCacheKeysFor_def)

lemma fst_set_insert_pair: "fst ` set (insert_pair k v m) = insert k (fst ` set m)"
  by (auto simp: insert_pair_def count_key_def)

lemma insert_pair_present: "count_key m k \<Longrightarrow> insert_pair k v m = m"
  by (simp add: insert_pair_def)

subsection \<open>A failure of the object store\<close>

text \<open>
  C5. When the object store fails on the bytes of an artifact, \<^verbatim>\<open>storeImpl\<close> returns the
  error of the store; the implementation object, with its pending sets, and the action
  cache are as before, and no object was stored. A second call for the same input, kind
  and bytes then runs as a first one: when the store and the cache take what they are
  given, the kind was the last one missing and the result can be encoded, the call
  succeeds, the kind is in the pending set, and one entry is put under the key of the
  input.
\<close>

theorem storeImpl_store_error:
  assumes "store_faults cas = True # fs"
  shows "storeImpl ext impl cas cache path bytes idx kind =
           (Inl StoreError, impl, cas\<lparr>store_faults := fs\<rparr>, cache)
       \<and> (idx < length (OutputRefs impl) \<and> fs = [] \<and> \<not> fails (put_faults cache)
            \<and> declaredKinds impl idx \<subseteq> insert kind (presentKinds impl idx)
            \<and> resultObject ext (Action impl)
                 (insert_pair kind (refOf ext (Object [] bytes)) (OutputRefs impl ! idx)) = Inr obj
          \<longrightarrow> (\<exists>impl2 cas2.
                 storeImpl ext impl (cas\<lparr>store_faults := fs\<rparr>) cache path bytes idx kind =
                   (Inr (), impl2, cas2,
                    cache\<lparr>entries := entries cache @ [(cacheKeyOf ext impl idx, refOf ext obj)],
                           put_faults := tl (put_faults cache)\<rparr>)
                 \<and> presentKinds impl2 idx = insert kind (presentKinds impl idx)))"
proof (intro conjI impI)
  have "fails (store_faults cas)"
    using assms by (simp add: fails_def)
  from storeImpl_fails [OF this] assms
  show "storeImpl ext impl cas cache path bytes idx kind =
          (Inl StoreError, impl, cas\<lparr>store_faults := fs\<rparr>, cache)"
    by simp
next
  assume h: "idx < length (OutputRefs impl) \<and> fs = [] \<and> \<not> fails (put_faults cache)
            \<and> declaredKinds impl idx \<subseteq> insert kind (presentKinds impl idx)
            \<and> resultObject ext (Action impl)
                 (insert_pair kind (refOf ext (Object [] bytes)) (OutputRefs impl ! idx)) = Inr obj"
  define cas1 where "cas1 = cas\<lparr>store_faults := fs\<rparr>"
  define cas2 where "cas2 = cas1\<lparr>objects := objects cas1 @ [Object [] bytes], store_faults := tl (store_faults cas1)\<rparr>"
  define impl1 where "impl1 = impl\<lparr>OutputRefs :=
        (OutputRefs impl)[idx := insert_pair kind (refOf ext (Object [] bytes)) (OutputRefs impl ! idx)]\<rparr>"
  from h have ok: "\<not> fails (store_faults cas1)" and len: "idx < length (OutputRefs impl)"
    by (simp_all add: cas1_def fails_def)
  have len1: "idx < length (OutputRefs impl1)" and ne: "OutputRefs impl1 ! idx \<noteq> []"
    using len by (simp_all add: impl1_def insert_pair_not_Nil)
  have pres: "presentKinds impl1 idx = insert kind (presentKinds impl idx)"
    using len by (simp add: impl1_def presentKinds_def fst_set_insert_pair)
  have decl: "declaredKinds impl1 idx = declaredKinds impl idx"
    by (simp add: impl1_def declaredKinds_def)
  have all: "allOutputsEmitted impl1 idx (OutputRefs impl1 ! idx)"
    using h pres decl by (simp add: allOutputsEmitted_iff presentKinds_def)
  have res: "resultObject ext (Action impl1) (OutputRefs impl1 ! idx) = Inr obj"
    using h len by (simp add: impl1_def)
  have f2: "\<not> fails (store_faults cas2)" "\<not> fails (tl (store_faults cas2))"
    using h by (simp_all add: cas2_def cas1_def fails_def)
  have put: "\<not> fails (put_faults cache)"
    using h by simp
  have key: "cacheKeyOf ext impl1 idx = cacheKeyOf ext impl idx"
    by (simp add: impl1_def cacheKeyOf_def)
  from finalize_complete [OF len1 ne all res f2 put] storeImpl_ok [OF ok len, of ext cache path bytes kind]
  have "storeImpl ext impl cas1 cache path bytes idx kind =
          (Inr (), impl1,
           cas2\<lparr>objects := objects cas2 @ [obj, cacheKeyObject ext (BaseKey impl1) idx],
                 store_faults := tl (tl (store_faults cas2))\<rparr>,
           cache\<lparr>entries := entries cache @ [(cacheKeyOf ext impl idx, refOf ext obj)],
                   put_faults := tl (put_faults cache)\<rparr>)"
    unfolding impl1_def [symmetric] cas2_def [symmetric] key by simp
  with pres show "\<exists>impl2 cas2.
                 storeImpl ext impl (cas\<lparr>store_faults := fs\<rparr>) cache path bytes idx kind =
                   (Inr (), impl2, cas2,
                    cache\<lparr>entries := entries cache @ [(cacheKeyOf ext impl idx, refOf ext obj)],
                           put_faults := tl (put_faults cache)\<rparr>)
                 \<and> presentKinds impl2 idx = insert kind (presentKinds impl idx)"
    unfolding cas1_def by blast
qed


theorem storeImpl_store_error_witness:
  "store_faults faultyStore = [True]
   \<and> storeImpl demoExt demoImpl faultyStore emptyCache ''b.o'' ''xy'' 1 5 =
        (Inl StoreError, demoImpl, faultyStore\<lparr>store_faults := []\<rparr>, emptyCache)
   \<and> 1 < length (OutputRefs demoImpl) \<and> \<not> fails (put_faults emptyCache)
   \<and> declaredKinds demoImpl 1 \<subseteq> insert 5 (presentKinds demoImpl 1)
   \<and> (\<exists>impl2 cas2.
         storeImpl demoExt demoImpl (faultyStore\<lparr>store_faults := []\<rparr>) emptyCache ''b.o'' ''xy'' 1 5 =
           (Inr (), impl2, cas2,
            emptyCache\<lparr>entries := entries emptyCache @
                           [(cacheKeyOf demoExt demoImpl 1, refOf demoExt (Object [ObjectRef 2] [char_of (5::nat)]))],
                       put_faults := tl (put_faults emptyCache)\<rparr>)
         \<and> presentKinds impl2 1 = insert 5 (presentKinds demoImpl 1))"
proof -
  have f: "store_faults faultyStore = [True]"
    by code_simp
  have h: "1 < length (OutputRefs demoImpl)" "\<not> fails (put_faults emptyCache)"
    "declaredKinds demoImpl 1 \<subseteq> insert 5 (presentKinds demoImpl 1)"
    "resultObject demoExt (Action demoImpl)
       (insert_pair 5 (refOf demoExt (Object [] ''xy'')) (OutputRefs demoImpl ! 1)) =
     Inr (Object [ObjectRef 2] [char_of (5::nat)])"
    by code_simp+
  from storeImpl_store_error [OF f, of demoExt demoImpl emptyCache "''b.o''" "''xy''" 1 5
         "Object [ObjectRef 2] [char_of (5::nat)]"] f h
  show ?thesis
    by blast
qed

subsection \<open>A kind stored twice\<close>

text \<open>
  C7, as stated: a second successful store of a kind that is in the pending set makes the
  pending set map the kind to the reference of the later bytes. It does not: the object
  file of the first input is stored with the bytes \<^verbatim>\<open>xy\<close>, then with the bytes
  \<^verbatim>\<open>xyz\<close>; both calls succeed, the two references differ, and the pending set holds the
  reference of \<^verbatim>\<open>xy\<close>.
\<close>

theorem storeImpl_second_store_counterexample:
  "storeImpl demoExt demoImpl emptyStore emptyCache ''a.o'' ''xy'' 0 5 =
     (Inr (), demoImplA, demoStoreA, emptyCache)
   \<and> fst (storeImpl demoExt demoImplA demoStoreA emptyCache ''a.o'' ''xyz'' 0 5) = Inr ()
   \<and> find_key (OutputRefs (fst (snd (storeImpl demoExt demoImplA demoStoreA emptyCache ''a.o'' ''xyz'' 0 5))) ! 0) 5
       = Some (refOf demoExt (Object [] ''xy''))
   \<and> refOf demoExt (Object [] ''xy'') \<noteq> refOf demoExt (Object [] ''xyz'')"
  by code_simp

text \<open>
  C7, amended: \<^verbatim>\<open>DenseMap::insert\<close> does not replace. When a kind is in the pending set
  of an input, a call of \<^verbatim>\<open>storeImpl\<close> for the input and the kind leaves the
  implementation object as it was, whatever the call returns: the pending set maps the
  kind to the reference of the earlier store.
\<close>

theorem storeImpl_keeps_first_reference:
  assumes "idx < length (OutputRefs impl)"
    and "find_key (OutputRefs impl ! idx) kind = Some ref"
    and "storeImpl ext impl cas cache path bytes idx kind = (r, impl', cas', cache')"
  shows "impl' = impl \<and> find_key (OutputRefs impl' ! idx) kind = Some ref"
proof -
  have "count_key (OutputRefs impl ! idx) kind"
    using assms(2) by (auto simp: find_key_def count_key_def dest: map_of_SomeD intro: rev_image_eqI)
  then have same: "impl\<lparr>OutputRefs := (OutputRefs impl)
                [idx := insert_pair kind (refOf ext (Object [] bytes)) (OutputRefs impl ! idx)]\<rparr> = impl"
    by (simp add: insert_pair_present)
  have "impl' = impl"
  proof (cases "fails (store_faults cas)")
    case True
    from assms(3) show ?thesis
      unfolding storeImpl_fails [OF True] by simp
  next
    case False
    from assms(3) show ?thesis
      unfolding storeImpl_ok [OF False assms(1)] same by simp
  qed
  with assms(2) show ?thesis
    by simp
qed

theorem storeImpl_keeps_first_reference_witness:
  "0 < length (OutputRefs demoImplA)
   \<and> find_key (OutputRefs demoImplA ! 0) 5 = Some (ObjectRef 2)
   \<and> fst (snd (storeImpl demoExt demoImplA demoStoreA emptyCache ''a.o'' ''xyz'' 0 5)) = demoImplA
   \<and> find_key (OutputRefs (fst (snd (storeImpl demoExt demoImplA demoStoreA emptyCache ''a.o'' ''xyz'' 0 5))) ! 0) 5
       = Some (ObjectRef 2)"
proof -
  have h: "0 < length (OutputRefs demoImplA)" "find_key (OutputRefs demoImplA ! 0) 5 = Some (ObjectRef 2)"
    by code_simp+
  from storeImpl_keeps_first_reference [OF h,
         of demoExt demoStoreA emptyCache "''a.o''" "''xyz''"
            "fst (storeImpl demoExt demoImplA demoStoreA emptyCache ''a.o'' ''xyz'' 0 5)"
            "fst (snd (storeImpl demoExt demoImplA demoStoreA emptyCache ''a.o'' ''xyz'' 0 5))"
            "fst (snd (snd (storeImpl demoExt demoImplA demoStoreA emptyCache ''a.o'' ''xyz'' 0 5)))"
            "snd (snd (snd (storeImpl demoExt demoImplA demoStoreA emptyCache ''a.o'' ''xyz'' 0 5)))"] h
  show ?thesis
    by simp
qed

subsection \<open>A path that is not in the route table\<close>

text \<open>
  C6. For a path that is not a key of the route table, \<^verbatim>\<open>createFileImpl\<close> fails on its
  assertion \<^verbatim>\<open>Unknown output file\<close>, which is the \<^verbatim>\<open>RouteNotFound\<close> of the
  specification. No file is returned, so nothing is kept: creating, writing and keeping
  an output at the path ends with the same failure and leaves the implementation object,
  the object store and the action cache as they were.
\<close>

theorem createFileImpl_unknown_path:
  assumes "path \<notin> fst ` set (OutputToInputMap impl)"
  shows "createFileImpl ext impl path = Inl (AssertionFailed ''Unknown output file'')
       \<and> emitOutput ext impl cas cache path bytes =
           (Inl (AssertionFailed ''Unknown output file''), impl, cas, cache)"
proof -
  from assms have "find_key (OutputToInputMap impl) path = None"
    by (simp add: find_key_def map_of_eq_None_iff)
  then show ?thesis
    by (simp add: createFileImpl_def emitOutput_def)
qed

theorem createFileImpl_unknown_path_witness:
  "''c.o'' \<notin> fst ` set (OutputToInputMap demoImpl)
   \<and> createFileImpl demoExt demoImpl ''c.o'' = Inl (AssertionFailed ''Unknown output file'')
   \<and> emitOutput demoExt demoImpl emptyStore emptyCache ''c.o'' ''xy'' =
        (Inl (AssertionFailed ''Unknown output file''), demoImpl, emptyStore, emptyCache)"
proof -
  have h: "''c.o'' \<notin> fst ` set (OutputToInputMap demoImpl)"
    by code_simp
  from createFileImpl_unknown_path [OF h] h show ?thesis
    by blast
qed

subsection \<open>The clang schema\<close>

lemma addClangOutputs_unexpected:
  "\<not> fst ` set outs \<subseteq> {TY_ClangModuleFile ext, TY_CachedDiagnostics ext, TY_Dependencies ext} \<Longrightarrow>
   addClangOutputs ext Builder outs = Inl (Unreachable ''Unexpected output when compiling clang module'')"
  by (induction outs arbitrary: Builder) auto

lemma resultObject_unexpected:
  assumes "\<not> fst ` set outs \<subseteq> {TY_ClangModuleFile ext, TY_CachedDiagnostics ext, TY_Dependencies ext}"
  shows "resultObject ext EmitPCM outs = Inl (Unreachable ''Unexpected output when compiling clang module'')"
proof -
  have "\<not> fst ` set (sort_key fst outs) \<subseteq> {TY_ClangModuleFile ext, TY_CachedDiagnostics ext, TY_Dependencies ext}"
    using assms by simp
  from addClangOutputs_unexpected [OF this] show ?thesis
    by (simp add: resultObject_def)
qed

text \<open>
  C4. The action is \<^verbatim>\<open>EmitPCM\<close>. Encoding a set of outputs that holds a kind other
  than the clang module file, the cached diagnostics and the dependencies ends in
  \<^verbatim>\<open>llvm_unreachable\<close>, which is the \<^verbatim>\<open>EncodeError\<close> of the specification. So a
  call of \<^verbatim>\<open>storeImpl\<close> that completes an input whose pending set holds such a kind
  ends that way; the action cache is as it was, and the only object stored is the one of
  the bytes.
\<close>

theorem emitPCM_unexpected_output:
  assumes "Action impl = EmitPCM"
    and "\<not> fails (store_faults cas)" and "idx < length (OutputRefs impl)"
    and "storeImpl ext impl cas cache path bytes idx kind = (r, impl', cas', cache')"
    and "declaredKinds impl' idx \<subseteq> presentKinds impl' idx"
    and "\<not> presentKinds impl' idx \<subseteq> {TY_ClangModuleFile ext, TY_CachedDiagnostics ext, TY_Dependencies ext}"
  shows "resultObject ext (Action impl') (OutputRefs impl' ! idx) =
           Inl (Unreachable ''Unexpected output when compiling clang module'')
       \<and> r = Inl (Unreachable ''Unexpected output when compiling clang module'')
       \<and> cache' = cache
       \<and> objects cas' = objects cas @ [Object [] bytes]"
proof -
  define cas1 where "cas1 = cas\<lparr>objects := objects cas @ [Object [] bytes], store_faults := tl (store_faults cas)\<rparr>"
  define impl1 where "impl1 = impl\<lparr>OutputRefs :=
      (OutputRefs impl)[idx := insert_pair kind (refOf ext (Object [] bytes)) (OutputRefs impl ! idx)]\<rparr>"
  from assms(4) have fin: "finalizeCacheKeysFor ext impl1 cas1 cache idx = (r, cas', cache')"
    and impl': "impl' = impl1"
    unfolding storeImpl_ok [OF assms(2,3)] cas1_def impl1_def by (auto simp: prod_eq_iff)
  have len: "idx < length (OutputRefs impl1)" and ne: "OutputRefs impl1 ! idx \<noteq> []"
    using assms(3) by (simp_all add: impl1_def insert_pair_not_Nil)
  have act: "Action impl1 = EmitPCM"
    using assms(1) by (simp add: impl1_def)
  have all: "allOutputsEmitted impl1 idx (OutputRefs impl1 ! idx)"
    using assms(5) by (simp add: impl' allOutputsEmitted_iff presentKinds_def)
  have res: "resultObject ext (Action impl1) (OutputRefs impl1 ! idx) =
               Inl (Unreachable ''Unexpected output when compiling clang module'')"
    unfolding act using assms(6) by (intro resultObject_unexpected) (simp add: impl' presentKinds_def)
  from finalize_encode_error [OF len ne all res, of cas1 cache] fin
  have "r = Inl (Unreachable ''Unexpected output when compiling clang module'')"
    and "cas' = cas1" and "cache' = cache"
    by simp_all
  moreover have "objects cas1 = objects cas @ [Object [] bytes]"
    by (simp add: cas1_def)
  ultimately show ?thesis
    using res by (simp add: impl')
qed

theorem emitPCM_unexpected_output_witness:
  "Action demoPCM = EmitPCM \<and> \<not> fails (store_faults emptyStore) \<and> 1 < length (OutputRefs demoPCM)
   \<and> storeImpl demoExt demoPCM emptyStore emptyCache ''b.o'' ''xy'' 1 5 =
        (Inl (Unreachable ''Unexpected output when compiling clang module''),
         demoPCM\<lparr>OutputRefs := [[], [(5, ObjectRef 2)]]\<rparr>, demoStoreA, emptyCache)
   \<and> declaredKinds (demoPCM\<lparr>OutputRefs := [[], [(5, ObjectRef 2)]]\<rparr>) 1
        \<subseteq> presentKinds (demoPCM\<lparr>OutputRefs := [[], [(5, ObjectRef 2)]]\<rparr>) 1
   \<and> \<not> presentKinds (demoPCM\<lparr>OutputRefs := [[], [(5, ObjectRef 2)]]\<rparr>) 1
        \<subseteq> {TY_ClangModuleFile demoExt, TY_CachedDiagnostics demoExt, TY_Dependencies demoExt}
   \<and> objects demoStoreA = objects emptyStore @ [Object [] ''xy'']"
proof -
  have h: "Action demoPCM = EmitPCM" "\<not> fails (store_faults emptyStore)" "1 < length (OutputRefs demoPCM)"
    "storeImpl demoExt demoPCM emptyStore emptyCache ''b.o'' ''xy'' 1 5 =
        (Inl (Unreachable ''Unexpected output when compiling clang module''),
         demoPCM\<lparr>OutputRefs := [[], [(5, ObjectRef 2)]]\<rparr>, demoStoreA, emptyCache)"
    "declaredKinds (demoPCM\<lparr>OutputRefs := [[], [(5, ObjectRef 2)]]\<rparr>) 1
        \<subseteq> presentKinds (demoPCM\<lparr>OutputRefs := [[], [(5, ObjectRef 2)]]\<rparr>) 1"
    "\<not> presentKinds (demoPCM\<lparr>OutputRefs := [[], [(5, ObjectRef 2)]]\<rparr>) 1
        \<subseteq> {TY_ClangModuleFile demoExt, TY_CachedDiagnostics demoExt, TY_Dependencies demoExt}"
    by code_simp+
  from emitPCM_unexpected_output [OF h] h show ?thesis
    by blast
qed

subsection \<open>The route table and the plan\<close>

lemma map_of_insert_pair: "map_of (insert_pair k v m) = map_of (m @ [(k, v)])"
proof (cases "count_key m k")
  case True
  then have "map_of m k \<noteq> None"
    by (simp add: count_key_def map_of_eq_None_iff)
  then have "map_of (m @ [(k, v)]) = map_of m"
    by (auto simp: map_add_def fun_eq_iff split: option.splits)
  with True show ?thesis
    by (simp add: insert_pair_def)
next
  case False
  then show ?thesis
    by (simp add: insert_pair_def)
qed

lemma map_of_insert_pair_append:
  "map_of (insert_pair k v m @ rest) = map_of (m @ (k, v) # rest)"
proof -
  have "map_of (insert_pair k v m @ rest) = map_of rest ++ map_of (insert_pair k v m)"
    by simp
  also have "\<dots> = map_of rest ++ map_of (m @ [(k, v)])"
    by (simp only: map_of_insert_pair)
  also have "\<dots> = map_of (m @ (k, v) # rest)"
    by (metis append.assoc append_Cons append_Nil map_of_append)
  finally show ?thesis .
qed

lemma map_of_fold_supplementary:
  "map_of (fold (\<lambda>(Out, ty) m'.
             if \<not> isProducedFromDiagnostics ext ty then insert_pair Out (Index, ty) m' else m') sups m @ rest) =
   map_of (m @ map (\<lambda>(Out, ty). (Out, (Index, ty)))
                 (filter (\<lambda>(Out, ty). \<not> isProducedFromDiagnostics ext ty) sups) @ rest)"
proof (induction sups arbitrary: m)
  case Nil
  show ?case by simp
next
  case (Cons s sups)
  obtain Out ty where s: "s = (Out, ty)" by (cases s)
  show ?case
  proof (cases "isProducedFromDiagnostics ext ty")
    case True
    with Cons.IH [of m] show ?thesis
      by (simp add: s)
  next
    case False
    with Cons.IH [of "insert_pair Out (Index, ty) m"] show ?thesis
      by (simp add: s map_of_insert_pair_append del: map_of_append)
  qed
qed

lemma map_of_addInput:
  "map_of (addInput ext ty m Input Index @ rest) = map_of (m @ inputRoutes ext ty Input Index @ rest)"
  unfolding addInput_def inputRoutes_def map_of_fold_supplementary
  by (simp add: map_of_insert_pair_append del: map_of_append)

lemma map_of_addInputs:
  "map_of (addInputs ext ty m idx inputs @ rest) = map_of (m @ routesFrom ext ty idx inputs @ rest)"
proof (induction inputs arbitrary: m idx)
  case Nil
  show ?case by simp
next
  case (Cons Input inputs)
  have "map_of (addInputs ext ty m idx (Input # inputs) @ rest) =
        map_of (addInput ext ty m Input idx @ routesFrom ext ty (Suc idx) inputs @ rest)"
    using Cons.IH by simp
  also have "\<dots> = map_of (m @ inputRoutes ext ty Input idx @ routesFrom ext ty (Suc idx) inputs @ rest)"
    by (rule map_of_addInput)
  finally show ?case
    by simp
qed

text \<open>
  C8, as stated: the construction of the route table fails when the plan yields one path
  for two routes. It does not: \<^verbatim>\<open>StringMap::insert\<close> leaves the map as it is when the
  key is there, and \<^verbatim>\<open>initBackend\<close> does not look at what it returns. For the plan of
  two inputs that both write to \<^verbatim>\<open>-\<close> the constructor returns a backend, and its
  table sends \<^verbatim>\<open>-\<close> to the first input.
\<close>

theorem initBackend_duplicate_path_counterexample:
  "outputFilename (getAllInputs dupPlan ! 0) = outputFilename (getAllInputs dupPlan ! 1)
   \<and> OutputToInputMap (new_Implementation demoExt (ObjectRef 7) dupPlan (OtherAction 0)) =
        [(''-'', 0, 5), (''<cached-diagnostics>'', 0, 2)]
   \<and> createFileImpl demoExt (new_Implementation demoExt (ObjectRef 7) dupPlan (OtherAction 0)) ''-'' =
        Inr (SwiftCASOutputFile ''-'' [] 0 5)"
  by code_simp

text \<open>
  C8, amended: the construction of the route table never fails. The table sends a path to
  the first route the plan yields for it, in the order of the insertions; a later route
  for the same path is dropped.
\<close>

theorem initBackend_first_route_wins:
  "find_key (OutputToInputMap (new_Implementation ext base io act)) path =
     map_of (plannedRoutes ext io) path"
proof -
  have "map_of (fst (initBackend ext io)) =
        map_of (addInputs ext (getPrincipalOutputType io) [] 0 (getAllInputs io)
                @ [(''<cached-diagnostics>'', (getIndexOfFirstOutputProducingInput io, TY_CachedDiagnostics ext))])"
    by (simp only: initBackend_def fst_conv map_of_insert_pair)
  also have "\<dots> = map_of (plannedRoutes ext io)"
    unfolding map_of_addInputs plannedRoutes_def by simp
  finally show ?thesis
    by (simp add: find_key_def new_Implementation_def)
qed

theorem initBackend_first_route_wins_witness:
  "find_key (OutputToInputMap (new_Implementation demoExt (ObjectRef 7) dupPlan (OtherAction 0))) ''-'' =
     map_of (plannedRoutes demoExt dupPlan) ''-''
   \<and> plannedRoutes demoExt dupPlan = [(''-'', 0, 5), (''-'', 1, 5), (''<cached-diagnostics>'', 0, 2)]
   \<and> map_of (plannedRoutes demoExt dupPlan) ''-'' = Some (0, 5)"
proof -
  have "plannedRoutes demoExt dupPlan = [(''-'', 0, 5), (''-'', 1, 5), (''<cached-diagnostics>'', 0, 2)]"
    "map_of (plannedRoutes demoExt dupPlan) ''-'' = Some (0, 5)"
    by code_simp+
  with initBackend_first_route_wins [of demoExt "ObjectRef 7" dupPlan "OtherAction 0" "''-''"]
  show ?thesis
    by simp
qed

subsection \<open>Diagnostics\<close>

lemma set_insert_pair: "set (insert_pair k v m) \<subseteq> insert (k, v) (set m)"
  by (auto simp: insert_pair_def)

lemma fold_supplementary_kinds:
  "e \<in> set (fold (\<lambda>(Out, ty) m'.
             if \<not> isProducedFromDiagnostics ext ty then insert_pair Out (Index, ty) m' else m') sups m) \<Longrightarrow>
   e \<in> set m \<or> \<not> isProducedFromDiagnostics ext (snd (snd e))"
proof (induction sups arbitrary: m)
  case Nil
  then show ?case by simp
next
  case (Cons s sups)
  obtain Out ty where s: "s = (Out, ty)" by (cases s)
  show ?case
  proof (cases "isProducedFromDiagnostics ext ty")
    case True
    with Cons.IH [of m] Cons.prems show ?thesis
      by (simp add: s)
  next
    case False
    with Cons.IH [of "insert_pair Out (Index, ty) m"] Cons.prems
    have "e \<in> set (insert_pair Out (Index, ty) m) \<or> \<not> isProducedFromDiagnostics ext (snd (snd e))"
      by (simp add: s)
    with False set_insert_pair [of Out "(Index, ty)" m] show ?thesis
      by auto
  qed
qed

lemma addInput_kinds:
  assumes "e \<in> set (addInput ext ty m Input Index)"
  shows "e \<in> set m \<or> snd (snd e) = ty \<or> \<not> isProducedFromDiagnostics ext (snd (snd e))"
proof -
  from fold_supplementary_kinds [OF assms [unfolded addInput_def]]
  have "e \<in> set (if outputFilename Input \<noteq> []
           then insert_pair (outputFilename Input) (Index, ty) m else m)
        \<or> \<not> isProducedFromDiagnostics ext (snd (snd e))" .
  with set_insert_pair [of "outputFilename Input" "(Index, ty)" m] show ?thesis
    by (auto split: if_splits)
qed

lemma addInputs_kinds:
  "e \<in> set (addInputs ext ty m idx inputs) \<Longrightarrow>
   e \<in> set m \<or> snd (snd e) = ty \<or> \<not> isProducedFromDiagnostics ext (snd (snd e))"
proof (induction inputs arbitrary: m idx)
  case Nil
  then show ?case by simp
next
  case (Cons Input inputs)
  from Cons.IH [of "addInput ext ty m Input idx" "Suc idx"] Cons.prems
  have "e \<in> set (addInput ext ty m Input idx) \<or> snd (snd e) = ty
        \<or> \<not> isProducedFromDiagnostics ext (snd (snd e))"
    by simp
  with addInput_kinds [of e ext ty m Input idx] show ?case
    by blast
qed

lemma initBackend_kinds:
  assumes "e \<in> set (fst (initBackend ext io))"
  shows "snd (snd e) = getPrincipalOutputType io \<or> snd (snd e) = TY_CachedDiagnostics ext
         \<or> \<not> isProducedFromDiagnostics ext (snd (snd e))"
proof -
  define m where "m = addInputs ext (getPrincipalOutputType io) [] 0 (getAllInputs io)"
  define c where "c = (getIndexOfFirstOutputProducingInput io, TY_CachedDiagnostics ext)"
  from assms have "e \<in> set (insert_pair ''<cached-diagnostics>'' c m)"
    by (simp add: initBackend_def m_def c_def)
  with set_insert_pair [of "''<cached-diagnostics>''" c m]
  have "e = (''<cached-diagnostics>'', c) \<or> e \<in> set m"
    by blast
  then show ?thesis
  proof
    assume "e = (''<cached-diagnostics>'', c)"
    then show ?thesis by (simp add: c_def)
  next
    assume "e \<in> set m"
    from addInputs_kinds [OF this [unfolded m_def]] show ?thesis
      by auto
  qed
qed

text \<open>
  C9, as stated: the diagnostics artifact of an input is never stored in the content store
  and is no part of the completeness check of any input. The cached diagnostics are:
  \<^verbatim>\<open>storeCachedDiagnostics\<close> stores the bytes and inserts the reference in the pending
  set, and \<^verbatim>\<open>initBackend\<close> declares the kind for the first input that produces
  output. Here the two outputs of the first input are stored and no entry is written; the
  call of \<^verbatim>\<open>storeCachedDiagnostics\<close> stores an object, extends the pending set and
  writes the entry.
\<close>

theorem storeCachedDiagnostics_counterexample:
  "storeSequence demoExt demoImpl emptyStore emptyCache [(0, 5, ''xy''), (0, 3, ''xyz'')] =
     (Inr (), demoImplAD, demoStoreAD, emptyCache)
   \<and> TY_CachedDiagnostics demoExt \<in> declaredKinds demoImpl 0
   \<and> storeCachedDiagnostics demoExt demoImplAD demoStoreAD emptyCache 0 ''d'' =
       (Inr (),
        demoImplAD\<lparr>OutputRefs := [[(5, ObjectRef 2), (3, ObjectRef 3), (2, ObjectRef 1)], []]\<rparr>,
        \<lparr>objects = [Object [] ''xy'', Object [] ''xyz'', Object [] ''d'',
                    Object [ObjectRef 1, ObjectRef 3, ObjectRef 2] [char_of (2::nat), char_of (3::nat), char_of (5::nat)],
                    Object [ObjectRef 7] ''k''],
         store_faults = []\<rparr>,
        \<lparr>entries = [(ObjectRef 113, ObjectRef 99)], put_faults = []\<rparr>)"
  by code_simp

lemma store_objects: "\<exists>xs. objects (snd (store ext cas obj)) = objects cas @ xs"
  by (simp add: store_def)

lemma finalize_objects:
  "\<exists>xs. objects (fst (snd (finalizeCacheKeysFor ext impl cas cache idx))) = objects cas @ xs"
proof (cases "idx < length (OutputRefs impl) \<and> OutputRefs impl ! idx \<noteq> []
              \<and> allOutputsEmitted impl idx (OutputRefs impl ! idx)")
  case False
  then have "fst (snd (finalizeCacheKeysFor ext impl cas cache idx)) = cas"
    by (auto simp: finalizeCacheKeysFor_def Let_def)
  then show ?thesis by simp
next
  case True
  show ?thesis
  proof (cases "resultObject ext (Action impl) (OutputRefs impl ! idx)")
    case (Inl e)
    with True have "fst (snd (finalizeCacheKeysFor ext impl cas cache idx)) = cas"
      by (simp add: finalize_encode_error)
    then show ?thesis by simp
  next
    case (Inr obj)
    obtain r1 cas1 where s1: "store ext cas obj = (r1, cas1)"
      by (cases "store ext cas obj")
    from store_objects [of ext cas obj] s1
    obtain xs where x1: "objects cas1 = objects cas @ xs"
      by auto
    show ?thesis
    proof (cases r1)
      case (Inl e)
      with True Inr s1 have "fst (snd (finalizeCacheKeysFor ext impl cas cache idx)) = cas1"
        by (simp add: finalizeCacheKeysFor_def)
      with x1 show ?thesis by simp
    next
      case ref: (Inr Result)
      obtain r2 cas2 where s2: "store ext cas1 (cacheKeyObject ext (BaseKey impl) idx) = (r2, cas2)"
        by (cases "store ext cas1 (cacheKeyObject ext (BaseKey impl) idx)")
      from store_objects [of ext cas1 "cacheKeyObject ext (BaseKey impl) idx"] s2
      obtain ys where x2: "objects cas2 = objects cas1 @ ys"
        by auto
      have "fst (snd (finalizeCacheKeysFor ext impl cas cache idx)) = cas2"
        using True Inr s1 ref s2
        by (cases r2; cases "put cache (projr r2) Result"; cases "fst (put cache (projr r2) Result)")
           (simp_all add: finalizeCacheKeysFor_def createCompileJobCacheKeyForOutput_def)
      with x1 x2 show ?thesis by simp
    qed
  qed
qed


lemma storeImpl_cache_changed:
  assumes "storeImpl ext impl cas cache path bytes idx kind = (r, impl', cas', cache')"
    and "cache' \<noteq> cache"
  shows "idx < length (OutputRefs impl) \<and> declaredKinds impl idx \<subseteq> presentKinds impl' idx"
proof -
  have ok: "\<not> fails (store_faults cas)"
    using storeImpl_fails [of cas ext impl cache path bytes idx kind] assms by auto
  have len: "idx < length (OutputRefs impl)"
    using storeImpl_range [OF ok, of idx impl ext cache path bytes kind] assms by auto
  define cas1 where "cas1 = cas\<lparr>objects := objects cas @ [Object [] bytes], store_faults := tl (store_faults cas)\<rparr>"
  define impl1 where "impl1 = impl\<lparr>OutputRefs :=
      (OutputRefs impl)[idx := insert_pair kind (refOf ext (Object [] bytes)) (OutputRefs impl ! idx)]\<rparr>"
  from assms(1) have fin: "finalizeCacheKeysFor ext impl1 cas1 cache idx = (r, cas', cache')"
    and impl': "impl' = impl1"
    unfolding storeImpl_ok [OF ok len] cas1_def impl1_def by (auto simp: prod_eq_iff)
  have "declaredKinds impl1 idx = declaredKinds impl idx"
    by (simp add: impl1_def declaredKinds_def)
  with finalize_cache_changed [OF fin assms(2)] len show ?thesis
    by (simp add: impl' allOutputsEmitted_iff presentKinds_def)
qed

lemma storeImpl_stored:
  assumes "\<not> fails (store_faults cas)" and "idx < length (OutputRefs impl)"
    and "storeImpl ext impl cas cache path bytes idx kind = (r, impl', cas', cache')"
  shows "\<exists>xs. objects cas' = objects cas @ Object [] bytes # xs"
    and "impl' = impl\<lparr>OutputRefs :=
      (OutputRefs impl)[idx := insert_pair kind (refOf ext (Object [] bytes)) (OutputRefs impl ! idx)]\<rparr>"
proof -
  define cas1 where "cas1 = cas\<lparr>objects := objects cas @ [Object [] bytes], store_faults := tl (store_faults cas)\<rparr>"
  define impl1 where "impl1 = impl\<lparr>OutputRefs :=
      (OutputRefs impl)[idx := insert_pair kind (refOf ext (Object [] bytes)) (OutputRefs impl ! idx)]\<rparr>"
  from assms(3) have cas': "cas' = fst (snd (finalizeCacheKeysFor ext impl1 cas1 cache idx))"
    and impl': "impl' = impl1"
    unfolding storeImpl_ok [OF assms(1,2)] cas1_def impl1_def by (auto simp: prod_eq_iff)
  from finalize_objects [of ext impl1 cas1 cache idx]
  obtain xs where "objects cas' = objects cas1 @ xs"
    unfolding cas' by auto
  then show "\<exists>xs. objects cas' = objects cas @ Object [] bytes # xs"
    by (simp add: cas1_def)
  show "impl' = impl\<lparr>OutputRefs :=
      (OutputRefs impl)[idx := insert_pair kind (refOf ext (Object [] bytes)) (OutputRefs impl ! idx)]\<rparr>"
    using impl' by (simp add: impl1_def)
qed

lemma find_key_insert_pair_new:
  assumes "\<not> count_key m k"
  shows "find_key (insert_pair k v m) k = Some v"
proof -
  from assms have "map_of m k = None"
    by (simp add: count_key_def map_of_eq_None_iff)
  with assms show ?thesis
    by (simp add: find_key_def insert_pair_def map_add_def)
qed

lemma addInputs_keys:
  "fst ` set (addInputs ext ty [] 0 inputs) = fst ` set (routesFrom ext ty 0 inputs)"
proof -
  from map_of_addInputs [of ext ty "[]" 0 inputs "[]"]
  have "dom (map_of (addInputs ext ty [] 0 inputs)) = dom (map_of (routesFrom ext ty 0 inputs))"
    by simp
  then show ?thesis
    by (simp only: dom_map_of_conv_image_fst)
qed

lemma cached_diagnostics_declared:
  assumes "''<cached-diagnostics>'' \<notin>
             fst ` set (routesFrom ext (getPrincipalOutputType io) 0 (getAllInputs io))"
  shows "TY_CachedDiagnostics ext \<in>
           declaredKinds (new_Implementation ext base io act) (getIndexOfFirstOutputProducingInput io)"
proof -
  define m where "m = addInputs ext (getPrincipalOutputType io) [] 0 (getAllInputs io)"
  have "\<not> count_key m ''<cached-diagnostics>''"
    using assms by (simp add: count_key_def m_def addInputs_keys)
  then have "OutputToInputMap (new_Implementation ext base io act) =
          m @ [(''<cached-diagnostics>'', (getIndexOfFirstOutputProducingInput io, TY_CachedDiagnostics ext))]"
    by (simp add: new_Implementation_def initBackend_def insert_pair_def m_def)
  then show ?thesis
    by (simp add: declaredKinds_def)
qed

text \<open>
  C9, amended, in four parts.
  (1) An output whose kind is produced from diagnostics (\<^verbatim>\<open>isProducedFromDiagnostics\<close>) is
  never stored through an output file: for a path that the route table sends to such a
  kind \<^verbatim>\<open>createFileImpl\<close> returns the null file, and creating, writing and keeping the
  output succeeds and leaves the implementation object, the object store and the action
  cache as they were; and whenever creating, writing and keeping an output changes one of
  them, the route table sends the path to a kind that is not produced from diagnostics.
  (2) In the table of a constructed backend a kind produced from diagnostics is declared for
  no input, unless it is the principal output type or the kind of the cached diagnostics:
  the supplementary outputs of such a kind are left out.
  (3) The cached diagnostics are stored: when the object store takes the bytes and the input
  index is in range, \<^verbatim>\<open>storeCachedDiagnostics\<close> stores the object of the bytes, and the
  kind of the cached diagnostics is in the pending set of the input afterwards, with the
  reference of the bytes when the kind was not there before.
  (4) When no main or supplementary output of the plan has the path
  \<^verbatim>\<open><cached-diagnostics>\<close>, the kind of the cached diagnostics is declared for the first
  input that produces output, and a store for that input, in any state of the pending
  sets, changes the action cache only when the kind of the cached diagnostics is in the
  pending set of the input.
\<close>

theorem diagnostics_kinds_and_cached_diagnostics:
  "(find_key (OutputToInputMap impl) path = Some (idx, ty) \<and> isProducedFromDiagnostics ext ty \<longrightarrow>
      createFileImpl ext impl path = Inr NullOutputFileImpl
      \<and> emitOutput ext impl cas cache path bytes = (Inr (), impl, cas, cache))
   \<and> (snd (emitOutput ext impl cas cache path bytes) \<noteq> (impl, cas, cache) \<longrightarrow>
        (\<exists>i k. find_key (OutputToInputMap impl) path = Some (i, k)
               \<and> \<not> isProducedFromDiagnostics ext k))
   \<and> (isProducedFromDiagnostics ext ty
        \<and> ty \<noteq> getPrincipalOutputType io \<and> ty \<noteq> TY_CachedDiagnostics ext \<longrightarrow>
        ty \<notin> declaredKinds (new_Implementation ext base io act) idx)
   \<and> (\<not> fails (store_faults cas) \<and> idx < length (OutputRefs impl)
        \<and> storeCachedDiagnostics ext impl cas cache idx bytes = (r, impl', cas', cache') \<longrightarrow>
        (\<exists>xs. objects cas' = objects cas @ Object [] bytes # xs)
        \<and> presentKinds impl' idx = insert (TY_CachedDiagnostics ext) (presentKinds impl idx)
        \<and> (TY_CachedDiagnostics ext \<notin> presentKinds impl idx \<longrightarrow>
             find_key (OutputRefs impl' ! idx) (TY_CachedDiagnostics ext) =
               Some (refOf ext (Object [] bytes))))
   \<and> (''<cached-diagnostics>'' \<notin>
          fst ` set (routesFrom ext (getPrincipalOutputType io) 0 (getAllInputs io)) \<longrightarrow>
        TY_CachedDiagnostics ext \<in>
          declaredKinds (new_Implementation ext base io act) (getIndexOfFirstOutputProducingInput io)
        \<and> (storeImpl ext ((new_Implementation ext base io act)\<lparr>OutputRefs := pending\<rparr>) cas cache
               path bytes (getIndexOfFirstOutputProducingInput io) kind = (r2, impl2, cas2, cache2)
             \<and> cache2 \<noteq> cache \<longrightarrow>
             TY_CachedDiagnostics ext \<in> presentKinds impl2 (getIndexOfFirstOutputProducingInput io)))"
proof -
  have p1: "createFileImpl ext impl path = Inr NullOutputFileImpl
            \<and> emitOutput ext impl cas cache path bytes = (Inr (), impl, cas, cache)"
    if "find_key (OutputToInputMap impl) path = Some (idx, ty) \<and> isProducedFromDiagnostics ext ty"
    using that by (simp add: createFileImpl_def emitOutput_def keep_def)
  have p2: "\<exists>i k. find_key (OutputToInputMap impl) path = Some (i, k)
               \<and> \<not> isProducedFromDiagnostics ext k"
    if ch: "snd (emitOutput ext impl cas cache path bytes) \<noteq> (impl, cas, cache)"
  proof (cases "find_key (OutputToInputMap impl) path")
    case None
    with ch show ?thesis
      by (simp add: createFileImpl_def emitOutput_def)
  next
    case (Some route)
    obtain i k where route: "route = (i, k)" by (cases route)
    have "\<not> isProducedFromDiagnostics ext k"
    proof
      assume "isProducedFromDiagnostics ext k"
      with Some route ch show False
        by (simp add: createFileImpl_def emitOutput_def keep_def)
    qed
    with Some route show ?thesis by simp
  qed
  have p3: "ty \<notin> declaredKinds (new_Implementation ext base io act) idx"
    if h: "isProducedFromDiagnostics ext ty
        \<and> ty \<noteq> getPrincipalOutputType io \<and> ty \<noteq> TY_CachedDiagnostics ext"
  proof
    assume "ty \<in> declaredKinds (new_Implementation ext base io act) idx"
    then obtain e where "e \<in> set (fst (initBackend ext io))" and "snd (snd e) = ty"
      by (auto simp: declaredKinds_def new_Implementation_def)
    with initBackend_kinds [of e ext io] h show False
      by simp
  qed
  have p4: "(\<exists>xs. objects cas' = objects cas @ Object [] bytes # xs)
        \<and> presentKinds impl' idx = insert (TY_CachedDiagnostics ext) (presentKinds impl idx)
        \<and> (TY_CachedDiagnostics ext \<notin> presentKinds impl idx \<longrightarrow>
             find_key (OutputRefs impl' ! idx) (TY_CachedDiagnostics ext) =
               Some (refOf ext (Object [] bytes)))"
    if h: "\<not> fails (store_faults cas) \<and> idx < length (OutputRefs impl)
        \<and> storeCachedDiagnostics ext impl cas cache idx bytes = (r, impl', cas', cache')"
  proof -
    from h have ok: "\<not> fails (store_faults cas)" and len: "idx < length (OutputRefs impl)"
      and st: "storeImpl ext impl cas cache ''<cached-diagnostics>'' bytes idx (TY_CachedDiagnostics ext) =
                 (r, impl', cas', cache')"
      by (simp_all add: storeCachedDiagnostics_def)
    note stored = storeImpl_stored [OF ok len st]
    have refs: "OutputRefs impl' ! idx =
                  insert_pair (TY_CachedDiagnostics ext) (refOf ext (Object [] bytes)) (OutputRefs impl ! idx)"
      using stored(2) len by simp
    have "presentKinds impl' idx = insert (TY_CachedDiagnostics ext) (presentKinds impl idx)"
      by (simp add: presentKinds_def refs fst_set_insert_pair)
    moreover have "find_key (OutputRefs impl' ! idx) (TY_CachedDiagnostics ext) =
               Some (refOf ext (Object [] bytes))"
      if "TY_CachedDiagnostics ext \<notin> presentKinds impl idx"
      unfolding refs using that
      by (intro find_key_insert_pair_new) (simp add: presentKinds_def count_key_def)
    ultimately show ?thesis
      using stored(1) by blast
  qed
  have p5: "TY_CachedDiagnostics ext \<in>
          declaredKinds (new_Implementation ext base io act) (getIndexOfFirstOutputProducingInput io)
        \<and> (storeImpl ext ((new_Implementation ext base io act)\<lparr>OutputRefs := pending\<rparr>) cas cache
               path bytes (getIndexOfFirstOutputProducingInput io) kind = (r2, impl2, cas2, cache2)
             \<and> cache2 \<noteq> cache \<longrightarrow>
             TY_CachedDiagnostics ext \<in> presentKinds impl2 (getIndexOfFirstOutputProducingInput io))"
    if h: "''<cached-diagnostics>'' \<notin>
          fst ` set (routesFrom ext (getPrincipalOutputType io) 0 (getAllInputs io))"
  proof -
    note decl = cached_diagnostics_declared [OF h, of base act]
    have same: "declaredKinds ((new_Implementation ext base io act)\<lparr>OutputRefs := pending\<rparr>)
                  (getIndexOfFirstOutputProducingInput io) =
                declaredKinds (new_Implementation ext base io act) (getIndexOfFirstOutputProducingInput io)"
      by (simp add: declaredKinds_def)
    have "TY_CachedDiagnostics ext \<in> presentKinds impl2 (getIndexOfFirstOutputProducingInput io)"
      if st: "storeImpl ext ((new_Implementation ext base io act)\<lparr>OutputRefs := pending\<rparr>) cas cache
               path bytes (getIndexOfFirstOutputProducingInput io) kind = (r2, impl2, cas2, cache2)"
        and ch: "cache2 \<noteq> cache"
      using storeImpl_cache_changed [OF st ch] decl same by auto
    with decl show ?thesis
      by blast
  qed
  from p1 p2 p3 p4 p5 show ?thesis
    by blast
qed

theorem diagnostics_kinds_and_cached_diagnostics_witness:
  "find_key (OutputToInputMap (new_Implementation demoExt (ObjectRef 7) diaMainPlan (OtherAction 0))) ''a.dia''
       = Some (0, 4)
   \<and> isProducedFromDiagnostics demoExt 4
   \<and> emitOutput demoExt (new_Implementation demoExt (ObjectRef 7) diaMainPlan (OtherAction 0))
        emptyStore emptyCache ''a.dia'' ''xy''
       = (Inr (), new_Implementation demoExt (ObjectRef 7) diaMainPlan (OtherAction 0), emptyStore, emptyCache)
   \<and> 4 \<noteq> getPrincipalOutputType diaSuppPlan \<and> 4 \<noteq> TY_CachedDiagnostics demoExt
   \<and> 4 \<notin> declaredKinds (new_Implementation demoExt (ObjectRef 7) diaSuppPlan (OtherAction 0)) 0
   \<and> snd (emitOutput demoExt demoImplAD demoStoreAD emptyCache ''<cached-diagnostics>'' ''d'')
       \<noteq> (demoImplAD, demoStoreAD, emptyCache)
   \<and> (\<exists>i k. find_key (OutputToInputMap demoImplAD) ''<cached-diagnostics>'' = Some (i, k)
             \<and> \<not> isProducedFromDiagnostics demoExt k)
   \<and> \<not> fails (store_faults demoStoreAD) \<and> 0 < length (OutputRefs demoImplAD)
   \<and> (\<exists>xs. objects (fst (snd (snd (storeCachedDiagnostics demoExt demoImplAD demoStoreAD emptyCache 0 ''d''))))
             = objects demoStoreAD @ Object [] ''d'' # xs)
   \<and> TY_CachedDiagnostics demoExt \<notin> presentKinds demoImplAD 0
   \<and> find_key (OutputRefs (fst (snd (storeCachedDiagnostics demoExt demoImplAD demoStoreAD emptyCache 0 ''d''))) ! 0)
        (TY_CachedDiagnostics demoExt) = Some (refOf demoExt (Object [] ''d''))
   \<and> ''<cached-diagnostics>'' \<notin>
        fst ` set (routesFrom demoExt (getPrincipalOutputType demoPlan) 0 (getAllInputs demoPlan))
   \<and> TY_CachedDiagnostics demoExt \<in>
        declaredKinds (new_Implementation demoExt (ObjectRef 7) demoPlan (OtherAction 0))
          (getIndexOfFirstOutputProducingInput demoPlan)
   \<and> snd (snd (snd (storeImpl demoExt
        ((new_Implementation demoExt (ObjectRef 7) demoPlan (OtherAction 0))
           \<lparr>OutputRefs := [[(5, ObjectRef 2), (3, ObjectRef 3)], []]\<rparr>)
        demoStoreAD emptyCache ''<cached-diagnostics>'' ''d'' (getIndexOfFirstOutputProducingInput demoPlan) 2)))
       \<noteq> emptyCache
   \<and> TY_CachedDiagnostics demoExt \<in>
        presentKinds (fst (snd (storeImpl demoExt
          ((new_Implementation demoExt (ObjectRef 7) demoPlan (OtherAction 0))
             \<lparr>OutputRefs := [[(5, ObjectRef 2), (3, ObjectRef 3)], []]\<rparr>)
          demoStoreAD emptyCache ''<cached-diagnostics>'' ''d'' (getIndexOfFirstOutputProducingInput demoPlan) 2)))
          (getIndexOfFirstOutputProducingInput demoPlan)"
proof -
  let ?DM = "new_Implementation demoExt (ObjectRef 7) diaMainPlan (OtherAction 0)"
  let ?X = "storeCachedDiagnostics demoExt demoImplAD demoStoreAD emptyCache 0 ''d''"
  let ?Y = "storeImpl demoExt
        ((new_Implementation demoExt (ObjectRef 7) demoPlan (OtherAction 0))
           \<lparr>OutputRefs := [[(5, ObjectRef 2), (3, ObjectRef 3)], []]\<rparr>)
        demoStoreAD emptyCache ''<cached-diagnostics>'' ''d'' (getIndexOfFirstOutputProducingInput demoPlan) 2"
  have a: "find_key (OutputToInputMap ?DM) ''a.dia'' = Some (0, 4)"
    "isProducedFromDiagnostics demoExt 4"
    "4 \<noteq> getPrincipalOutputType diaSuppPlan" "4 \<noteq> TY_CachedDiagnostics demoExt"
    by code_simp+
  have b: "snd (emitOutput demoExt demoImplAD demoStoreAD emptyCache ''<cached-diagnostics>'' ''d'')
             \<noteq> (demoImplAD, demoStoreAD, emptyCache)"
    "\<not> fails (store_faults demoStoreAD)" "0 < length (OutputRefs demoImplAD)"
    "TY_CachedDiagnostics demoExt \<notin> presentKinds demoImplAD 0"
    "''<cached-diagnostics>'' \<notin>
        fst ` set (routesFrom demoExt (getPrincipalOutputType demoPlan) 0 (getAllInputs demoPlan))"
    "snd (snd (snd ?Y)) \<noteq> emptyCache"
    by code_simp+
  have x: "?X = (fst ?X, fst (snd ?X), fst (snd (snd ?X)), snd (snd (snd ?X)))"
    and y: "?Y = (fst ?Y, fst (snd ?Y), fst (snd (snd ?Y)), snd (snd (snd ?Y)))"
    by simp_all
  note first = diagnostics_kinds_and_cached_diagnostics
    [where impl = ?DM and path = "''a.dia''" and idx = 0 and ty = 4 and ext = demoExt
       and cas = emptyStore and cache = emptyCache and bytes = "''xy''"
       and io = diaSuppPlan and base = "ObjectRef 7" and act = "OtherAction 0"]
  note second = diagnostics_kinds_and_cached_diagnostics
    [where impl = demoImplAD and path = "''<cached-diagnostics>''" and idx = 0 and ext = demoExt
       and cas = demoStoreAD and cache = emptyCache and bytes = "''d''"
       and io = demoPlan and base = "ObjectRef 7" and act = "OtherAction 0"
       and r = "fst ?X" and impl' = "fst (snd ?X)" and cas' = "fst (snd (snd ?X))"
       and cache' = "snd (snd (snd ?X))"
       and pending = "[[(5, ObjectRef 2), (3, ObjectRef 3)], []]" and kind = 2
       and ?r2.0 = "fst ?Y" and ?impl2.0 = "fst (snd ?Y)" and ?cas2.0 = "fst (snd (snd ?Y))"
       and ?cache2.0 = "snd (snd (snd ?Y))"]
  from first a have c1: "emitOutput demoExt ?DM emptyStore emptyCache ''a.dia'' ''xy''
       = (Inr (), ?DM, emptyStore, emptyCache)"
    "4 \<notin> declaredKinds (new_Implementation demoExt (ObjectRef 7) diaSuppPlan (OtherAction 0)) 0"
    by blast+
  from second b(1) have c2: "\<exists>i k. find_key (OutputToInputMap demoImplAD) ''<cached-diagnostics>'' = Some (i, k)
             \<and> \<not> isProducedFromDiagnostics demoExt k"
    by blast
  from second b(2,3,4) x have c3:
    "\<exists>xs. objects (fst (snd (snd ?X))) = objects demoStoreAD @ Object [] ''d'' # xs"
    "find_key (OutputRefs (fst (snd ?X)) ! 0) (TY_CachedDiagnostics demoExt)
       = Some (refOf demoExt (Object [] ''d''))"
    by blast+
  from second b(5,6) y have c4:
    "TY_CachedDiagnostics demoExt \<in>
        declaredKinds (new_Implementation demoExt (ObjectRef 7) demoPlan (OtherAction 0))
          (getIndexOfFirstOutputProducingInput demoPlan)"
    "TY_CachedDiagnostics demoExt \<in>
        presentKinds (fst (snd ?Y)) (getIndexOfFirstOutputProducingInput demoPlan)"
    by blast+
  from a b c1 c2 c3 c4 show ?thesis
    by (intro conjI)
qed

subsection \<open>Cloning a backend\<close>

lemma backend_storeImpl_frame:
  "other \<noteq> this \<Longrightarrow>
   Impls (snd (backend_storeImpl ext mem this path bytes idx kind)) ! other = Impls mem ! other"
  by (simp add: backend_storeImpl_def split_beta)

text \<open>
  C10. \<^verbatim>\<open>cloneImpl\<close> allocates a new implementation object from the base key, the
  inputs and outputs and the action of the original, over the same object store and action
  cache. The clone is another object than the original, which is not changed. The route
  table of the clone is built anew from the same plan, and its pending sets are empty,
  whatever the original has stored. A store through the clone leaves the implementation
  object of the original, hence its pending sets and what it takes for complete, as it
  was, and a store through the original leaves that of the clone.
\<close>

theorem cloneImpl_fresh_pending_sets:
  assumes "this < length (Impls mem)" and "cloneImpl ext mem this = (clone, mem')"
  shows "clone \<noteq> this \<and> clone < length (Impls mem')
       \<and> CAS mem' = CAS mem \<and> Cache mem' = Cache mem
       \<and> Impls mem' ! this = Impls mem ! this
       \<and> BaseKey (Impls mem' ! clone) = BaseKey (Impls mem ! this)
       \<and> InputsAndOutputs (Impls mem' ! clone) = InputsAndOutputs (Impls mem ! this)
       \<and> Action (Impls mem' ! clone) = Action (Impls mem ! this)
       \<and> OutputToInputMap (Impls mem' ! clone) =
           fst (initBackend ext (InputsAndOutputs (Impls mem ! this)))
       \<and> OutputRefs (Impls mem' ! clone) =
           replicate (length (getAllInputs (InputsAndOutputs (Impls mem ! this)))) []
       \<and> Impls (snd (backend_storeImpl ext mem' clone path bytes idx kind)) ! this = Impls mem ! this
       \<and> Impls (snd (backend_storeImpl ext mem' this path bytes idx kind)) ! clone = Impls mem' ! clone"
proof -
  define I where "I = Impls mem ! this"
  from assms(2) have clone: "clone = length (Impls mem)"
    and mem': "mem' = mem\<lparr>Impls := Impls mem @
                 [new_Implementation ext (BaseKey I) (InputsAndOutputs I) (Action I)]\<rparr>"
    by (simp_all add: cloneImpl_def new_SwiftCASOutputBackend_def I_def)
  from assms(1) have ne: "clone \<noteq> this" "this \<noteq> clone"
    by (simp_all add: clone)
  have orig: "Impls mem' ! this = Impls mem ! this"
    using assms(1) by (simp add: mem' nth_append)
  have new: "Impls mem' ! clone = new_Implementation ext (BaseKey I) (InputsAndOutputs I) (Action I)"
    by (simp add: mem' clone)
  have len: "clone < length (Impls mem')"
    by (simp add: mem' clone)
  have shared: "CAS mem' = CAS mem" "Cache mem' = Cache mem"
    by (simp_all add: mem')
  have fields: "BaseKey (Impls mem' ! clone) = BaseKey I"
    "InputsAndOutputs (Impls mem' ! clone) = InputsAndOutputs I"
    "Action (Impls mem' ! clone) = Action I"
    "OutputToInputMap (Impls mem' ! clone) = fst (initBackend ext (InputsAndOutputs I))"
    "OutputRefs (Impls mem' ! clone) = replicate (length (getAllInputs (InputsAndOutputs I))) []"
    unfolding new by (simp_all add: new_Implementation_def initBackend_def)
  have f1: "Impls (snd (backend_storeImpl ext mem' clone path bytes idx kind)) ! this = Impls mem ! this"
    using backend_storeImpl_frame [OF ne(2), of ext mem' path bytes idx kind] orig by simp
  have f2: "Impls (snd (backend_storeImpl ext mem' this path bytes idx kind)) ! clone = Impls mem' ! clone"
    by (rule backend_storeImpl_frame [OF ne(1)])
  from ne(1) len shared orig fields f1 f2 show ?thesis
    unfolding I_def by blast
qed

theorem cloneImpl_fresh_pending_sets_witness:
  "0 < length (Impls demoMemory)
   \<and> cloneImpl demoExt demoMemory 0 = (1, demoMemory\<lparr>Impls := [demoImplA, demoImpl]\<rparr>)
   \<and> OutputRefs (Impls demoMemory ! 0) = [[(5, ObjectRef 2)], []]
   \<and> OutputRefs (Impls (demoMemory\<lparr>Impls := [demoImplA, demoImpl]\<rparr>) ! 1) =
        replicate (length (getAllInputs (InputsAndOutputs (Impls demoMemory ! 0)))) []
   \<and> Impls (snd (backend_storeImpl demoExt (demoMemory\<lparr>Impls := [demoImplA, demoImpl]\<rparr>) 1
                  ''a.d'' ''xyz'' 0 3)) ! 0 = Impls demoMemory ! 0"
proof -
  have h: "0 < length (Impls demoMemory)"
    "cloneImpl demoExt demoMemory 0 = (1, demoMemory\<lparr>Impls := [demoImplA, demoImpl]\<rparr>)"
    by code_simp+
  have p: "OutputRefs (Impls demoMemory ! 0) = [[(5, ObjectRef 2)], []]"
    by code_simp
  from cloneImpl_fresh_pending_sets [OF h, of "''a.d''" "''xyz''" 0 3] h p show ?thesis
    by blast
qed

subsection \<open>One entry for an input\<close>

lemma finalize_result_error:
  assumes "idx < length (OutputRefs impl)" "OutputRefs impl ! idx \<noteq> []"
    and "allOutputsEmitted impl idx (OutputRefs impl ! idx)"
    and "resultObject ext (Action impl) (OutputRefs impl ! idx) = Inr obj"
    and "fails (store_faults cas)"
  shows "fst (finalizeCacheKeysFor ext impl cas cache idx) = Inl StoreError"
  using assms by (simp add: finalizeCacheKeysFor_def store_def)

lemma finalize_key_error:
  assumes "idx < length (OutputRefs impl)" "OutputRefs impl ! idx \<noteq> []"
    and "allOutputsEmitted impl idx (OutputRefs impl ! idx)"
    and "resultObject ext (Action impl) (OutputRefs impl ! idx) = Inr obj"
    and "\<not> fails (store_faults cas)" "fails (tl (store_faults cas))"
  shows "fst (finalizeCacheKeysFor ext impl cas cache idx) = Inl StoreError"
proof -
  define cas1 where "cas1 = cas\<lparr>objects := objects cas @ [obj], store_faults := tl (store_faults cas)\<rparr>"
  have s1: "store ext cas obj = (Inr (refOf ext obj), cas1)"
    using assms(5) by (simp add: store_ok cas1_def)
  have "fails (store_faults cas1)"
    using assms(6) by (simp add: cas1_def)
  then have s2: "createCompileJobCacheKeyForOutput ext cas1 (BaseKey impl) idx =
      (Inl StoreError, cas1\<lparr>store_faults := tl (store_faults cas1)\<rparr>)"
    by (simp add: createCompileJobCacheKeyForOutput_def store_def)
  show ?thesis
    unfolding finalizeCacheKeysFor_def Let_def
    using assms(1-4) by (simp add: s1 s2)
qed

lemma finalize_put_error:
  assumes "idx < length (OutputRefs impl)" "OutputRefs impl ! idx \<noteq> []"
    and "allOutputsEmitted impl idx (OutputRefs impl ! idx)"
    and "resultObject ext (Action impl) (OutputRefs impl ! idx) = Inr obj"
    and "\<not> fails (store_faults cas)" "\<not> fails (tl (store_faults cas))" "fails (put_faults cache)"
  shows "fst (finalizeCacheKeysFor ext impl cas cache idx) = Inl CacheError"
proof -
  define cas1 where "cas1 = cas\<lparr>objects := objects cas @ [obj], store_faults := tl (store_faults cas)\<rparr>"
  have s1: "store ext cas obj = (Inr (refOf ext obj), cas1)"
    using assms(5) by (simp add: store_ok cas1_def)
  have "\<not> fails (store_faults cas1)"
    using assms(6) by (simp add: cas1_def)
  then have s2: "createCompileJobCacheKeyForOutput ext cas1 (BaseKey impl) idx =
      (Inr (cacheKeyOf ext impl idx),
       cas1\<lparr>objects := objects cas1 @ [cacheKeyObject ext (BaseKey impl) idx],
             store_faults := tl (store_faults cas1)\<rparr>)"
    by (simp add: createCompileJobCacheKeyForOutput_def store_ok cacheKeyOf_def)
  have s3: "put cache (cacheKeyOf ext impl idx) (refOf ext obj) =
      (Inl CacheError, cache\<lparr>put_faults := tl (put_faults cache)\<rparr>)"
    using assms(7) by (simp add: put_def)
  show ?thesis
    unfolding finalizeCacheKeysFor_def Let_def
    using assms(1-4) by (simp add: s1 s2 s3)
qed

text \<open>What a successful call of \<^verbatim>\<open>finalizeCacheKeysFor\<close> has done to the cache.\<close>

lemma finalize_success:
  assumes "finalizeCacheKeysFor ext impl cas cache idx = (Inr (), cas', cache')"
    and len: "idx < length (OutputRefs impl)" and ne: "OutputRefs impl ! idx \<noteq> []"
  shows "(jobComplete impl idx \<longrightarrow>
            (\<exists>v. entries cache' = entries cache @ [(cacheKeyOf ext impl idx, v)]))
       \<and> (\<not> jobComplete impl idx \<longrightarrow> cache' = cache)"
proof (cases "allOutputsEmitted impl idx (OutputRefs impl ! idx)")
  case False
  with finalize_incomplete [OF len ne False, of ext cas cache] assms(1) ne show ?thesis
    by (simp add: jobComplete_def)
next
  case all: True
  have fstr: "fst (finalizeCacheKeysFor ext impl cas cache idx) = Inr ()"
    using assms(1) by simp
  obtain obj where res: "resultObject ext (Action impl) (OutputRefs impl ! idx) = Inr obj"
  proof (cases "resultObject ext (Action impl) (OutputRefs impl ! idx)")
    case (Inl e)
    from finalize_encode_error [OF len ne all Inl, of cas cache] fstr show ?thesis
      by simp
  next
    case (Inr obj)
    then show ?thesis by (rule that)
  qed
  have f1: "\<not> fails (store_faults cas)"
    using finalize_result_error [OF len ne all res, of cas cache] fstr by auto
  have f2: "\<not> fails (tl (store_faults cas))"
    using finalize_key_error [OF len ne all res f1, of cache] fstr by auto
  have f3: "\<not> fails (put_faults cache)"
    using finalize_put_error [OF len ne all res f1 f2, of cache] fstr by auto
  from finalize_complete [OF len ne all res f1 f2 f3] assms(1)
  have "entries cache' = entries cache @ [(cacheKeyOf ext impl idx, refOf ext obj)]"
    by auto
  with all ne show ?thesis
    by (auto simp: jobComplete_def)
qed

text \<open>What a successful call of \<^verbatim>\<open>storeImpl\<close> has done.\<close>

lemma storeImpl_success:
  assumes "storeImpl ext impl cas cache path bytes idx kind = (Inr (), impl1, cas1, cache1)"
  shows "idx < length (OutputRefs impl)"
    and "impl1 = impl\<lparr>OutputRefs := (OutputRefs impl)
            [idx := insert_pair kind (refOf ext (Object [] bytes)) (OutputRefs impl ! idx)]\<rparr>"
    and "jobComplete impl1 idx \<longrightarrow>
           (\<exists>v. entries cache1 = entries cache @ [(cacheKeyOf ext impl idx, v)])"
    and "\<not> jobComplete impl1 idx \<longrightarrow> cache1 = cache"
proof -
  have ok: "\<not> fails (store_faults cas)"
    using storeImpl_fails [of cas ext impl cache path bytes idx kind] assms by auto
  show len: "idx < length (OutputRefs impl)"
    using storeImpl_range [OF ok, of idx impl ext cache path bytes kind] assms by auto
  define J where "J = impl\<lparr>OutputRefs := (OutputRefs impl)
            [idx := insert_pair kind (refOf ext (Object [] bytes)) (OutputRefs impl ! idx)]\<rparr>"
  define cas0 where "cas0 = cas\<lparr>objects := objects cas @ [Object [] bytes], store_faults := tl (store_faults cas)\<rparr>"
  from assms have fin: "finalizeCacheKeysFor ext J cas0 cache idx = (Inr (), cas1, cache1)"
    and impl1: "impl1 = J"
    unfolding storeImpl_ok [OF ok len] J_def cas0_def by (auto simp: prod_eq_iff)
  show "impl1 = impl\<lparr>OutputRefs := (OutputRefs impl)
            [idx := insert_pair kind (refOf ext (Object [] bytes)) (OutputRefs impl ! idx)]\<rparr>"
    using impl1 by (simp add: J_def)
  have lenJ: "idx < length (OutputRefs J)" and neJ: "OutputRefs J ! idx \<noteq> []"
    using len by (simp_all add: J_def insert_pair_not_Nil)
  have key: "cacheKeyOf ext J idx = cacheKeyOf ext impl idx"
    by (simp add: J_def cacheKeyOf_def)
  from finalize_success [OF fin lenJ neJ]
  show "jobComplete impl1 idx \<longrightarrow>
           (\<exists>v. entries cache1 = entries cache @ [(cacheKeyOf ext impl idx, v)])"
    and "\<not> jobComplete impl1 idx \<longrightarrow> cache1 = cache"
    unfolding impl1 key by simp_all
qed

lemma storeImpl_success_other:
  assumes "storeImpl ext impl cas cache path bytes idx kind = (Inr (), impl1, cas1, cache1)"
    and "other \<noteq> idx"
  shows "jobComplete impl1 other = jobComplete impl other"
  using storeImpl_success(2) [OF assms(1)] assms(2)
  by (simp add: jobComplete_def allOutputsEmitted_def)

lemma storeImpl_success_fields:
  assumes "storeImpl ext impl cas cache path bytes idx kind = (Inr (), impl1, cas1, cache1)"
  shows "length (OutputRefs impl1) = length (OutputRefs impl)"
    and "cacheKeyOf ext impl1 = cacheKeyOf ext impl"
  using storeImpl_success(2) [OF assms(1)]
  by (simp_all add: cacheKeyOf_def fun_eq_iff)

lemma storeImpl_stays_complete:
  assumes "storeImpl ext impl cas cache path bytes idx kind = (Inr (), impl1, cas1, cache1)"
    and "jobComplete impl j"
  shows "jobComplete impl1 j"
proof (cases "j = idx")
  case False
  with storeImpl_success_other [OF assms(1)] assms(2) show ?thesis
    by simp
next
  case True
  note len = storeImpl_success(1) [OF assms(1)]
  have refs: "OutputRefs impl1 ! idx =
                insert_pair kind (refOf ext (Object [] bytes)) (OutputRefs impl ! idx)"
    and tab: "OutputToInputMap impl1 = OutputToInputMap impl"
    using storeImpl_success(2) [OF assms(1)] len by simp_all
  have "declaredKinds impl1 idx = declaredKinds impl idx"
    by (simp add: declaredKinds_def tab)
  with assms(2) True show ?thesis
    by (auto simp: jobComplete_def allOutputsEmitted_iff refs fst_set_insert_pair insert_pair_not_Nil)
qed

lemma storeSequence_stays_complete:
  "storeSequence ext impl cas cache reqs = (Inr (), impl', cas', cache') \<Longrightarrow>
   jobComplete impl j \<Longrightarrow> jobComplete impl' j"
proof (induction reqs arbitrary: impl cas cache)
  case Nil
  then show ?case by simp
next
  case (Cons req reqs)
  obtain r impl1 cas1 cache1 where
    step: "storeImpl ext impl cas cache [] (snd (snd req)) (fst req) (fst (snd req)) = (r, impl1, cas1, cache1)"
    by (metis prod_cases4)
  show ?case
  proof (cases r)
    case (Inl e)
    with Cons.prems(1) step show ?thesis by simp
  next
    case (Inr u)
    with Cons.prems(1) step
    have rest: "storeSequence ext impl1 cas1 cache1 reqs = (Inr (), impl', cas', cache')"
      by simp
    from step Inr have "storeImpl ext impl cas cache [] (snd (snd req)) (fst req) (fst (snd req)) = (Inr (), impl1, cas1, cache1)"
      by simp
    from storeImpl_stays_complete [OF this Cons.prems(2)] Cons.IH [OF rest] show ?thesis
      by simp
  qed
qed

lemma putsFor_append:
  "entries cache1 = entries cache @ [(k, v)] \<Longrightarrow>
   putsFor key cache1 = putsFor key cache + (if k = key then 1 else 0)"
  by (simp add: putsFor_def)

text \<open>
  C2, as stated: in a sequence of successful stores the entry of an input is put at most
  once, and a later store for an input that is complete causes no second put. It does:
  \<^verbatim>\<open>storeImpl\<close> calls \<^verbatim>\<open>finalizeCacheKeysFor\<close> after every insertion, and nothing
  records that the entry was written. The second input declares its object file only;
  storing it twice, with the same bytes, succeeds twice and puts two entries under the key
  of the input.
\<close>

theorem second_put_counterexample:
  "fst (storeSequence demoExt demoImpl emptyStore emptyCache [(1, 5, ''xy''), (1, 5, ''xy'')]) = Inr ()
   \<and> entries (snd (snd (snd
        (storeSequence demoExt demoImpl emptyStore emptyCache [(1, 5, ''xy''), (1, 5, ''xy'')])))) =
       [(cacheKeyOf demoExt demoImpl 1, ObjectRef 33), (cacheKeyOf demoExt demoImpl 1, ObjectRef 33)]
   \<and> putsFor (cacheKeyOf demoExt demoImpl 1) (snd (snd (snd
        (storeSequence demoExt demoImpl emptyStore emptyCache [(1, 5, ''xy''), (1, 5, ''xy'')])))) = 2"
  by code_simp

text \<open>
  C2, amended: take a sequence of successful stores in which no store is for an input that
  is complete when the store is made, and let the keys of the inputs be distinct. Then
  for every input the number of entries under its key grows by one when the input becomes
  complete in the sequence, and not at all otherwise: the entry is put at most once, by
  the store that completes the input.
\<close>

theorem put_at_most_once:
  assumes keys: "distinct (map (cacheKeyOf ext impl) [0..<length (OutputRefs impl)])"
    and run: "storeSequence ext impl cas cache reqs = (Inr (), impl', cas', cache')"
    and guard: "noStoreOnComplete ext impl cas cache reqs"
    and idx: "idx < length (OutputRefs impl)"
  shows "putsFor (cacheKeyOf ext impl idx) cache' =
           putsFor (cacheKeyOf ext impl idx) cache
           + (if \<not> jobComplete impl idx \<and> jobComplete impl' idx then 1 else 0)"
  using keys run guard idx
proof (induction reqs arbitrary: impl cas cache)
  case Nil
  then show ?case by auto
next
  case (Cons req reqs)
  obtain r impl1 cas1 cache1 where
    step0: "storeImpl ext impl cas cache [] (snd (snd req)) (fst req) (fst (snd req)) = (r, impl1, cas1, cache1)"
    by (metis prod_cases4)
  have r: "r = Inr ()"
    using Cons.prems(2) step0 by (cases r) simp_all
  note step = step0 [unfolded r]
  from Cons.prems(2) step
  have rest: "storeSequence ext impl1 cas1 cache1 reqs = (Inr (), impl', cas', cache')"
    by simp
  from Cons.prems(3) step
  have open_job: "\<not> jobComplete impl (fst req)"
    and guard1: "noStoreOnComplete ext impl1 cas1 cache1 reqs"
    by simp_all
  note fields = storeImpl_success_fields [OF step]
  note req_len = storeImpl_success(1) [OF step]
  have keys1: "distinct (map (cacheKeyOf ext impl1) [0..<length (OutputRefs impl1)])"
    using Cons.prems(1) by (simp add: fields)
  have idx1: "idx < length (OutputRefs impl1)"
    using Cons.prems(4) by (simp add: fields)
  from Cons.IH [OF keys1 rest guard1 idx1]
  have IH: "putsFor (cacheKeyOf ext impl idx) cache' =
              putsFor (cacheKeyOf ext impl idx) cache1
              + (if \<not> jobComplete impl1 idx \<and> jobComplete impl' idx then 1 else 0)"
    by (simp add: fields)
  show ?case
  proof (cases "fst req = idx")
    case True
    show ?thesis
    proof (cases "jobComplete impl1 idx")
      case compl: True
      with storeImpl_success(3) [OF step] True compl
      obtain v where "entries cache1 = entries cache @ [(cacheKeyOf ext impl idx, v)]"
        by auto
      from putsFor_append [OF this, of "cacheKeyOf ext impl idx"]
      have "putsFor (cacheKeyOf ext impl idx) cache1 = putsFor (cacheKeyOf ext impl idx) cache + 1"
        by simp
      moreover have "jobComplete impl' idx"
        using storeSequence_stays_complete [OF rest compl] .
      ultimately show ?thesis
        using IH compl open_job True by simp
    next
      case False
      with storeImpl_success(4) [OF step] True have "cache1 = cache"
        by simp
      with IH False open_job True show ?thesis
        by simp
    qed
  next
    case other: False
    then have same: "jobComplete impl1 idx = jobComplete impl idx"
      using storeImpl_success_other [OF step, of idx] by simp
    have "inj_on (cacheKeyOf ext impl) (set [0..<length (OutputRefs impl)])"
      using Cons.prems(1) by (simp only: distinct_map)
    with req_len Cons.prems(4) other
    have ne: "cacheKeyOf ext impl (fst req) \<noteq> cacheKeyOf ext impl idx"
      by (auto simp: inj_on_def)
    have "putsFor (cacheKeyOf ext impl idx) cache1 = putsFor (cacheKeyOf ext impl idx) cache"
    proof (cases "jobComplete impl1 (fst req)")
      case True
      with storeImpl_success(3) [OF step]
      obtain v where "entries cache1 = entries cache @ [(cacheKeyOf ext impl (fst req), v)]"
        by auto
      from putsFor_append [OF this, of "cacheKeyOf ext impl idx"] ne show ?thesis
        by simp
    next
      case False
      with storeImpl_success(4) [OF step] show ?thesis
        by simp
    qed
    with IH same show ?thesis
      by simp
  qed
qed

theorem put_at_most_once_witness:
  "distinct (map (cacheKeyOf demoExt demoImpl) [0..<length (OutputRefs demoImpl)])
   \<and> fst (storeSequence demoExt demoImpl emptyStore emptyCache
            [(0, 5, ''xy''), (1, 5, ''xy''), (0, 3, ''xyz''), (0, 2, ''d'')]) = Inr ()
   \<and> noStoreOnComplete demoExt demoImpl emptyStore emptyCache
            [(0, 5, ''xy''), (1, 5, ''xy''), (0, 3, ''xyz''), (0, 2, ''d'')]
   \<and> 0 < length (OutputRefs demoImpl)
   \<and> \<not> jobComplete demoImpl 0
   \<and> putsFor (cacheKeyOf demoExt demoImpl 0) emptyCache = 0
   \<and> putsFor (cacheKeyOf demoExt demoImpl 0)
        (snd (snd (snd (storeSequence demoExt demoImpl emptyStore emptyCache
            [(0, 5, ''xy''), (1, 5, ''xy''), (0, 3, ''xyz''), (0, 2, ''d'')])))) = 1"
proof -
  let ?reqs = "[(0, 5, ''xy''), (1, 5, ''xy''), (0, 3, ''xyz''), (0, 2, ''d'')] :: (nat \<times> ID \<times> string) list"
  let ?res = "storeSequence demoExt demoImpl emptyStore emptyCache ?reqs"
  have h: "distinct (map (cacheKeyOf demoExt demoImpl) [0..<length (OutputRefs demoImpl)])"
    by code_simp
  have ok: "fst ?res = Inr ()"
    by code_simp
  then have run: "?res = (Inr (), fst (snd ?res), fst (snd (snd ?res)), snd (snd (snd ?res)))"
    by (simp add: prod_eq_iff)
  have g: "noStoreOnComplete demoExt demoImpl emptyStore emptyCache ?reqs"
    by code_simp
  have i: "0 < length (OutputRefs demoImpl)"
    by code_simp
  have c: "\<not> jobComplete demoImpl 0" "jobComplete (fst (snd ?res)) 0"
    "putsFor (cacheKeyOf demoExt demoImpl 0) emptyCache = 0"
    by code_simp+
  from put_at_most_once [OF h run g i] h ok g i c show ?thesis
    by simp
qed

subsection \<open>The order of the stores\<close>

lemma filter_same_key:
  "distinct (map fst zs) \<Longrightarrow> k \<in> set zs \<Longrightarrow> filter (\<lambda>x. fst k = fst x) zs = [k]"
proof (induction zs)
  case Nil
  then show ?case by simp
next
  case (Cons z zs)
  show ?case
  proof (cases "k = z")
    case True
    have "filter (\<lambda>x. fst z = fst x) zs = []"
      using Cons.prems(1) by (auto simp: filter_empty_conv)
    with True show ?thesis by simp
  next
    case False
    with Cons.prems have "k \<in> set zs" and "fst k \<noteq> fst z"
      by (auto simp: rev_image_eqI)
    with Cons show ?thesis by simp
  qed
qed

lemma sort_key_permutation:
  assumes "mset xs = mset ys" and "distinct (map fst xs)"
  shows "sort_key fst xs = sort_key fst ys"
proof (rule properties_for_sort_key)
  show "mset (sort_key fst ys) = mset xs"
    using assms(1) by simp
  show "sorted (map fst (sort_key fst ys))"
    by simp
  fix k assume k: "k \<in> set (sort_key fst ys)"
  have "mset (map fst (sort_key fst ys)) = mset (map fst xs)"
    using assms(1) by simp
  then have d: "distinct (map fst (sort_key fst ys))"
    using assms(2) by (metis mset_eq_imp_distinct_iff)
  have "k \<in> set xs"
    using k assms(1) by (metis mset_eq_setD set_sort)
  from filter_same_key [OF d k] filter_same_key [OF assms(2) this]
  show "filter (\<lambda>x. fst k = fst x) (sort_key fst ys) = filter (\<lambda>x. fst k = fst x) xs"
    by simp
qed

lemma resultObject_permutation:
  assumes "mset xs = mset ys" and "distinct (map fst xs)"
  shows "resultObject ext act xs = resultObject ext act ys"
  by (simp add: resultObject_def sort_key_permutation [OF assms])

lemma storeSequence_append:
  "storeSequence ext impl cas cache (xs @ ys) =
     (case storeSequence ext impl cas cache xs of
        (Inl e, st) \<Rightarrow> (Inl e, st)
      | (Inr u, impl1, cas1, cache1) \<Rightarrow> storeSequence ext impl1 cas1 cache1 ys)"
proof (induction xs arbitrary: impl cas cache)
  case Nil
  show ?case by simp
next
  case (Cons x xs)
  obtain r impl1 cas1 cache1 where
    step: "storeImpl ext impl cas cache [] (snd (snd x)) (fst x) (fst (snd x)) = (r, impl1, cas1, cache1)"
    by (metis prod_cases4)
  show ?case
    by (cases r) (simp_all add: step Cons.IH)
qed

lemma storeImpl_new_kind_incomplete:
  assumes len: "idx < length (OutputRefs impl)"
    and new: "\<not> count_key (OutputRefs impl ! idx) k"
    and inc: "\<not> declaredKinds impl idx \<subseteq> insert k (fst ` set (OutputRefs impl ! idx))"
  shows "storeImpl ext impl \<lparr>objects = os, store_faults = []\<rparr> cache path bytes idx k =
           (Inr (),
            impl\<lparr>OutputRefs := (OutputRefs impl)
                   [idx := OutputRefs impl ! idx @ [(k, refOf ext (Object [] bytes))]]\<rparr>,
            \<lparr>objects = os @ [Object [] bytes], store_faults = []\<rparr>, cache)"
proof -
  define J where "J = impl\<lparr>OutputRefs := (OutputRefs impl)
                   [idx := OutputRefs impl ! idx @ [(k, refOf ext (Object [] bytes))]]\<rparr>"
  have ok: "\<not> fails (store_faults \<lparr>objects = os, store_faults = []\<rparr>)"
    by (simp add: fails_def)
  have ins: "insert_pair k (refOf ext (Object [] bytes)) (OutputRefs impl ! idx) =
               OutputRefs impl ! idx @ [(k, refOf ext (Object [] bytes))]"
    using new by (simp add: insert_pair_def)
  have lenJ: "idx < length (OutputRefs J)" and neJ: "OutputRefs J ! idx \<noteq> []"
    using len by (simp_all add: J_def)
  have "declaredKinds J idx = declaredKinds impl idx"
    by (simp add: J_def declaredKinds_def)
  then have incJ: "\<not> allOutputsEmitted J idx (OutputRefs J ! idx)"
    using inc len by (simp add: allOutputsEmitted_iff J_def)
  show ?thesis
    unfolding storeImpl_ok [OF ok len] ins J_def [symmetric]
    by (simp add: finalize_incomplete [OF lenJ neJ incJ])
qed

lemma storeImpl_new_kind_complete:
  assumes len: "idx < length (OutputRefs impl)"
    and new: "\<not> count_key (OutputRefs impl ! idx) k"
    and all: "declaredKinds impl idx \<subseteq> insert k (fst ` set (OutputRefs impl ! idx))"
  shows "storeImpl ext impl \<lparr>objects = os, store_faults = []\<rparr> \<lparr>entries = es, put_faults = []\<rparr>
           path bytes idx k =
           (case resultObject ext (Action impl)
                   (OutputRefs impl ! idx @ [(k, refOf ext (Object [] bytes))]) of
              Inl e \<Rightarrow>
                (Inl e,
                 impl\<lparr>OutputRefs := (OutputRefs impl)
                        [idx := OutputRefs impl ! idx @ [(k, refOf ext (Object [] bytes))]]\<rparr>,
                 \<lparr>objects = os @ [Object [] bytes], store_faults = []\<rparr>,
                 \<lparr>entries = es, put_faults = []\<rparr>)
            | Inr obj \<Rightarrow>
                (Inr (),
                 impl\<lparr>OutputRefs := (OutputRefs impl)
                        [idx := OutputRefs impl ! idx @ [(k, refOf ext (Object [] bytes))]]\<rparr>,
                 \<lparr>objects = os @ [Object [] bytes, obj, cacheKeyObject ext (BaseKey impl) idx],
                  store_faults = []\<rparr>,
                 \<lparr>entries = es @ [(cacheKeyOf ext impl idx, refOf ext obj)], put_faults = []\<rparr>))"
proof -
  define J where "J = impl\<lparr>OutputRefs := (OutputRefs impl)
                   [idx := OutputRefs impl ! idx @ [(k, refOf ext (Object [] bytes))]]\<rparr>"
  define cas1 where "cas1 = \<lparr>objects = os @ [Object [] bytes], store_faults = []\<rparr>"
  define cache where "cache = \<lparr>entries = es, put_faults = []\<rparr>"
  have ok: "\<not> fails (store_faults \<lparr>objects = os, store_faults = []\<rparr>)"
    by (simp add: fails_def)
  have ins: "insert_pair k (refOf ext (Object [] bytes)) (OutputRefs impl ! idx) =
               OutputRefs impl ! idx @ [(k, refOf ext (Object [] bytes))]"
    using new by (simp add: insert_pair_def)
  have lenJ: "idx < length (OutputRefs J)" and neJ: "OutputRefs J ! idx \<noteq> []"
    and refsJ: "OutputRefs J ! idx = OutputRefs impl ! idx @ [(k, refOf ext (Object [] bytes))]"
    and actJ: "Action J = Action impl" and baseJ: "BaseKey J = BaseKey impl"
    using len by (simp_all add: J_def)
  have keyJ: "cacheKeyOf ext J idx = cacheKeyOf ext impl idx"
    by (simp add: cacheKeyOf_def baseJ)
  have "declaredKinds J idx = declaredKinds impl idx"
    by (simp add: J_def declaredKinds_def)
  then have allJ: "allOutputsEmitted J idx (OutputRefs J ! idx)"
    using all by (simp add: allOutputsEmitted_iff refsJ)
  have st: "storeImpl ext impl \<lparr>objects = os, store_faults = []\<rparr> cache path bytes idx k =
              (fst (finalizeCacheKeysFor ext J cas1 cache idx), J,
               snd (finalizeCacheKeysFor ext J cas1 cache idx))"
    unfolding storeImpl_ok [OF ok len] ins J_def [symmetric] cas1_def by simp
  have f: "\<not> fails (store_faults cas1)" "\<not> fails (tl (store_faults cas1))" "\<not> fails (put_faults cache)"
    by (simp_all add: cas1_def cache_def fails_def)
  show ?thesis
  proof (cases "resultObject ext (Action impl)
                   (OutputRefs impl ! idx @ [(k, refOf ext (Object [] bytes))])")
    case (Inl e)
    then have "resultObject ext (Action J) (OutputRefs J ! idx) = Inl e"
      by (simp add: actJ refsJ)
    from finalize_encode_error [OF lenJ neJ allJ this, of cas1 cache] st Inl show ?thesis
      by (simp add: J_def cas1_def cache_def)
  next
    case (Inr obj)
    then have "resultObject ext (Action J) (OutputRefs J ! idx) = Inr obj"
      by (simp add: actJ refsJ)
    from finalize_complete [OF lenJ neJ allJ this f] st Inr show ?thesis
      by (simp add: J_def [symmetric] cas1_def cache_def keyJ baseJ)
  qed
qed

lemma storeSequence_incomplete:
  assumes "idx < length (OutputRefs impl)"
    and "distinct (map fst (OutputRefs impl ! idx) @ map fst arts)"
    and "\<not> declaredKinds impl idx \<subseteq> fst ` set (OutputRefs impl ! idx) \<union> fst ` set arts"
  shows "storeSequence ext impl \<lparr>objects = os, store_faults = []\<rparr> cache (storesFor idx arts) =
           (Inr (),
            impl\<lparr>OutputRefs := (OutputRefs impl)[idx := OutputRefs impl ! idx @ refsOf ext arts]\<rparr>,
            \<lparr>objects = os @ map (\<lambda>a. Object [] (snd a)) arts, store_faults = []\<rparr>, cache)"
  using assms
proof (induction arts arbitrary: impl os)
  case Nil
  then show ?case
    by (simp add: storesFor_def refsOf_def)
next
  case (Cons a arts)
  define J where "J = impl\<lparr>OutputRefs := (OutputRefs impl)
                   [idx := OutputRefs impl ! idx @ [(fst a, refOf ext (Object [] (snd a)))]]\<rparr>"
  have new: "\<not> count_key (OutputRefs impl ! idx) (fst a)"
    using Cons.prems(2) by (auto simp: count_key_def)
  have inc: "\<not> declaredKinds impl idx \<subseteq> insert (fst a) (fst ` set (OutputRefs impl ! idx))"
    using Cons.prems(3) by auto
  have step: "storeImpl ext impl \<lparr>objects = os, store_faults = []\<rparr> cache [] (snd a) idx (fst a) =
           (Inr (), J, \<lparr>objects = os @ [Object [] (snd a)], store_faults = []\<rparr>, cache)"
    unfolding J_def by (rule storeImpl_new_kind_incomplete [OF Cons.prems(1) new inc])
  have lenJ: "idx < length (OutputRefs J)"
    and refsJ: "OutputRefs J ! idx = OutputRefs impl ! idx @ [(fst a, refOf ext (Object [] (snd a)))]"
    using Cons.prems(1) by (simp_all add: J_def)
  have dJ: "distinct (map fst (OutputRefs J ! idx) @ map fst arts)"
    using Cons.prems(2) by (simp add: refsJ)
  have "declaredKinds J idx = declaredKinds impl idx"
    by (simp add: J_def declaredKinds_def)
  then have incJ: "\<not> declaredKinds J idx \<subseteq> fst ` set (OutputRefs J ! idx) \<union> fst ` set arts"
    using Cons.prems(3) by (simp add: refsJ Un_commute insert_commute)
  have "storeSequence ext impl \<lparr>objects = os, store_faults = []\<rparr> cache (storesFor idx (a # arts)) =
        storeSequence ext J \<lparr>objects = os @ [Object [] (snd a)], store_faults = []\<rparr> cache (storesFor idx arts)"
    by (simp add: storesFor_def step)
  also note Cons.IH [OF lenJ dJ incJ]
  finally show ?case
    using Cons.prems(1) by (simp add: J_def refsOf_def)
qed

lemma fst_set_refsOf: "fst ` set (refsOf ext arts) = fst ` set arts"
  by (simp add: refsOf_def image_image)

lemma map_fst_refsOf: "map fst (refsOf ext arts) = map fst arts"
  by (simp add: refsOf_def)

text \<open>
  The stores of all the declared kinds of an input, each once, from an empty pending set:
  the last one encodes the result of the references in the order of the stores.
\<close>

lemma storeSequence_all_kinds:
  assumes len: "idx < length (OutputRefs impl)"
    and empty: "OutputRefs impl ! idx = []"
    and d: "distinct (map fst arts)" and ne: "arts \<noteq> []"
    and decl: "fst ` set arts = declaredKinds impl idx"
  shows "storeSequence ext impl \<lparr>objects = os, store_faults = []\<rparr> \<lparr>entries = es, put_faults = []\<rparr>
           (storesFor idx arts) =
           (case resultObject ext (Action impl) (refsOf ext arts) of
              Inl e \<Rightarrow>
                (Inl e,
                 impl\<lparr>OutputRefs := (OutputRefs impl)[idx := refsOf ext arts]\<rparr>,
                 \<lparr>objects = os @ map (\<lambda>a. Object [] (snd a)) arts, store_faults = []\<rparr>,
                 \<lparr>entries = es, put_faults = []\<rparr>)
            | Inr obj \<Rightarrow>
                (Inr (),
                 impl\<lparr>OutputRefs := (OutputRefs impl)[idx := refsOf ext arts]\<rparr>,
                 \<lparr>objects = os @ map (\<lambda>a. Object [] (snd a)) arts
                              @ [obj, cacheKeyObject ext (BaseKey impl) idx],
                  store_faults = []\<rparr>,
                 \<lparr>entries = es @ [(cacheKeyOf ext impl idx, refOf ext obj)], put_faults = []\<rparr>))"
proof -
  from ne obtain pre a where arts: "arts = pre @ [a]"
    by (metis rev_exhaust)
  define J where "J = impl\<lparr>OutputRefs := (OutputRefs impl)[idx := refsOf ext pre]\<rparr>"
  define cas1 where "cas1 = \<lparr>objects = os @ map (\<lambda>a. Object [] (snd a)) pre, store_faults = []\<rparr>"
  define cache where "cache = \<lparr>entries = es, put_faults = []\<rparr>"
  have a_decl: "fst a \<in> declaredKinds impl idx" and a_new: "fst a \<notin> fst ` set pre"
    using decl d by (auto simp: arts)
  have dpre: "distinct (map fst (OutputRefs impl ! idx) @ map fst pre)"
    using d by (simp add: empty arts)
  have inc: "\<not> declaredKinds impl idx \<subseteq> fst ` set (OutputRefs impl ! idx) \<union> fst ` set pre"
    using a_decl a_new by (auto simp: empty)
  have prefix: "storeSequence ext impl \<lparr>objects = os, store_faults = []\<rparr> cache (storesFor idx pre) =
                  (Inr (), J, cas1, cache)"
    using storeSequence_incomplete [OF len dpre inc, of ext os cache]
    by (simp add: empty J_def cas1_def)
  have lenJ: "idx < length (OutputRefs J)" and refsJ: "OutputRefs J ! idx = refsOf ext pre"
    and actJ: "Action J = Action impl" and baseJ: "BaseKey J = BaseKey impl"
    using len by (simp_all add: J_def)
  have keyJ: "cacheKeyOf ext J idx = cacheKeyOf ext impl idx"
    by (simp add: cacheKeyOf_def baseJ)
  have newJ: "\<not> count_key (OutputRefs J ! idx) (fst a)"
    using a_new by (simp add: count_key_def refsJ map_fst_refsOf)
  have "declaredKinds J idx = declaredKinds impl idx"
    by (simp add: J_def declaredKinds_def)
  then have allJ: "declaredKinds J idx \<subseteq> insert (fst a) (fst ` set (OutputRefs J ! idx))"
    using decl by (simp add: refsJ fst_set_refsOf arts)
  have refs: "OutputRefs J ! idx @ [(fst a, refOf ext (Object [] (snd a)))] = refsOf ext arts"
    by (simp add: refsJ refsOf_def arts)
  have upd: "J\<lparr>OutputRefs := (OutputRefs J)[idx := refsOf ext arts]\<rparr> =
             impl\<lparr>OutputRefs := (OutputRefs impl)[idx := refsOf ext arts]\<rparr>"
    by (simp add: J_def)
  note last = storeImpl_new_kind_complete [OF lenJ newJ allJ,
      of ext "os @ map (\<lambda>a. Object [] (snd a)) pre" es "[]" "snd a",
      unfolded refs upd actJ keyJ baseJ]
  have "storeSequence ext impl \<lparr>objects = os, store_faults = []\<rparr> cache (storesFor idx arts) =
        storeSequence ext J cas1 cache [(idx, fst a, snd a)]"
    unfolding arts storesFor_def map_append storeSequence_append
    using prefix by (simp add: storesFor_def)
  also have "\<dots> = (case resultObject ext (Action impl) (refsOf ext arts) of
              Inl e \<Rightarrow>
                (Inl e,
                 impl\<lparr>OutputRefs := (OutputRefs impl)[idx := refsOf ext arts]\<rparr>,
                 \<lparr>objects = os @ map (\<lambda>a. Object [] (snd a)) arts, store_faults = []\<rparr>,
                 \<lparr>entries = es, put_faults = []\<rparr>)
            | Inr obj \<Rightarrow>
                (Inr (),
                 impl\<lparr>OutputRefs := (OutputRefs impl)[idx := refsOf ext arts]\<rparr>,
                 \<lparr>objects = os @ map (\<lambda>a. Object [] (snd a)) arts
                              @ [obj, cacheKeyObject ext (BaseKey impl) idx],
                  store_faults = []\<rparr>,
                 \<lparr>entries = es @ [(cacheKeyOf ext impl idx, refOf ext obj)], put_faults = []\<rparr>))"
    by (cases "resultObject ext (Action impl) (refsOf ext arts)")
       (simp_all add: last arts cache_def cas1_def)
  finally show ?thesis
    by (simp add: cache_def)
qed

text \<open>
  C3. The pending set of an input is empty, the kinds of the artifacts are distinct and
  are the declared kinds of the input, and the object store and the action cache take what
  they are given. Then storing the artifacts in one order and in any other order ends the
  same way: the result object encoded from the final pending set is the same, so its
  reference is, the last store returns the same, and the action cache is the same; when the
  result can be encoded, the cache has got one entry, the reference of that object under
  the key of the input.
\<close>

theorem store_order_independent:
  assumes len: "idx < length (OutputRefs impl)" and empty: "OutputRefs impl ! idx = []"
    and d: "distinct (map fst arts)" and ne: "arts \<noteq> []"
    and decl: "fst ` set arts = declaredKinds impl idx"
    and perm: "mset arts' = mset arts"
    and nofault: "store_faults cas = []" "put_faults cache = []"
    and run: "storeSequence ext impl cas cache (storesFor idx arts) = (r, impl1, cas1, cache1)"
    and run': "storeSequence ext impl cas cache (storesFor idx arts') = (r', impl2, cas2, cache2)"
  shows "resultObject ext (Action impl2) (OutputRefs impl2 ! idx) =
           resultObject ext (Action impl1) (OutputRefs impl1 ! idx)
       \<and> r' = r \<and> cache2 = cache1
       \<and> (resultObject ext (Action impl1) (OutputRefs impl1 ! idx) = Inr obj \<longrightarrow>
            r = Inr () \<and>
            entries cache1 = entries cache @ [(cacheKeyOf ext impl idx, refOf ext obj)])"
proof -
  have cas: "cas = \<lparr>objects = objects cas, store_faults = []\<rparr>"
    using nofault(1) by (cases cas) simp
  have cache: "cache = \<lparr>entries = entries cache, put_faults = []\<rparr>"
    using nofault(2) by (cases cache) simp
  have d': "distinct (map fst arts')"
    using d perm by (metis mset_eq_imp_distinct_iff mset_map)
  have ne': "arts' \<noteq> []"
    using ne perm by auto
  have decl': "fst ` set arts' = declaredKinds impl idx"
    using decl perm by (metis mset_eq_setD)
  have "mset (refsOf ext arts') = mset (refsOf ext arts)"
    using perm by (simp add: refsOf_def)
  moreover have "distinct (map fst (refsOf ext arts'))"
    using d' by (simp add: map_fst_refsOf)
  ultimately have same: "resultObject ext (Action impl) (refsOf ext arts') =
                         resultObject ext (Action impl) (refsOf ext arts)"
    by (rule resultObject_permutation)
  note all = storeSequence_all_kinds [OF len empty d ne decl, of ext "objects cas" "entries cache",
      folded cas cache, unfolded run]
  note all' = storeSequence_all_kinds [OF len empty d' ne' decl', of ext "objects cas" "entries cache",
      folded cas cache, unfolded run' same]
  show ?thesis
  proof (cases "resultObject ext (Action impl) (refsOf ext arts)")
    case (Inl e)
    with all all' len same show ?thesis
      by simp
  next
    case (Inr res)
    with all all' len same show ?thesis
      by simp
  qed
qed

theorem store_order_independent_witness:
  "0 < length (OutputRefs demoImpl) \<and> OutputRefs demoImpl ! 0 = []
   \<and> distinct (map fst [(5, ''xy''), (3, ''xyz''), (2::nat, ''d'')])
   \<and> fst ` set [(5, ''xy''), (3, ''xyz''), (2, ''d'')] = declaredKinds demoImpl 0
   \<and> mset [(2, ''d''), (5, ''xy''), (3::nat, ''xyz'')] = mset [(5, ''xy''), (3, ''xyz''), (2, ''d'')]
   \<and> store_faults emptyStore = [] \<and> put_faults emptyCache = []
   \<and> OutputRefs (fst (snd (storeSequence demoExt demoImpl emptyStore emptyCache
         (storesFor 0 [(5, ''xy''), (3, ''xyz''), (2, ''d'')])))) ! 0 =
        [(5, ObjectRef 2), (3, ObjectRef 3), (2, ObjectRef 1)]
   \<and> OutputRefs (fst (snd (storeSequence demoExt demoImpl emptyStore emptyCache
         (storesFor 0 [(2, ''d''), (5, ''xy''), (3, ''xyz'')])))) ! 0 =
        [(2, ObjectRef 1), (5, ObjectRef 2), (3, ObjectRef 3)]
   \<and> snd (snd (snd (storeSequence demoExt demoImpl emptyStore emptyCache
         (storesFor 0 [(2, ''d''), (5, ''xy''), (3, ''xyz'')])))) =
       snd (snd (snd (storeSequence demoExt demoImpl emptyStore emptyCache
         (storesFor 0 [(5, ''xy''), (3, ''xyz''), (2, ''d'')]))))
   \<and> entries (snd (snd (snd (storeSequence demoExt demoImpl emptyStore emptyCache
         (storesFor 0 [(5, ''xy''), (3, ''xyz''), (2, ''d'')]))))) =
       entries emptyCache @ [(cacheKeyOf demoExt demoImpl 0, ObjectRef 99)]"
proof -
  let ?arts = "[(5, ''xy''), (3, ''xyz''), (2, ''d'')] :: (ID \<times> string) list"
  let ?arts' = "[(2, ''d''), (5, ''xy''), (3, ''xyz'')] :: (ID \<times> string) list"
  let ?run = "storeSequence demoExt demoImpl emptyStore emptyCache (storesFor 0 ?arts)"
  let ?run' = "storeSequence demoExt demoImpl emptyStore emptyCache (storesFor 0 ?arts')"
  let ?obj = "Object [ObjectRef 1, ObjectRef 3, ObjectRef 2] [char_of (2::nat), char_of (3::nat), char_of (5::nat)]"
  have h: "0 < length (OutputRefs demoImpl)" "OutputRefs demoImpl ! 0 = []"
    "distinct (map fst ?arts)" "?arts \<noteq> []"
    "fst ` set ?arts = declaredKinds demoImpl 0"
    by code_simp+
  have p: "mset ?arts' = mset ?arts"
    by simp
  have f: "store_faults emptyStore = []" "put_faults emptyCache = []"
    by code_simp+
  have r: "?run = (fst ?run, fst (snd ?run), fst (snd (snd ?run)), snd (snd (snd ?run)))"
    "?run' = (fst ?run', fst (snd ?run'), fst (snd (snd ?run')), snd (snd (snd ?run')))"
    by simp_all
  have v: "OutputRefs (fst (snd ?run)) ! 0 = [(5, ObjectRef 2), (3, ObjectRef 3), (2, ObjectRef 1)]"
    "OutputRefs (fst (snd ?run')) ! 0 = [(2, ObjectRef 1), (5, ObjectRef 2), (3, ObjectRef 3)]"
    "resultObject demoExt (Action (fst (snd ?run))) (OutputRefs (fst (snd ?run)) ! 0) = Inr ?obj"
    "refOf demoExt ?obj = ObjectRef 99"
    by code_simp+
  from store_order_independent [OF h p f r, of ?obj] h p f v show ?thesis
    by simp
qed

end
